theory Spec2Isabelle
  imports Complex_Main
begin

section \<open>Values shared by the embedded functions\<close>

text \<open>
  Python floats and NumPy float64 values are modelled as \<^typ>\<open>real\<close>, complex128 as
  \<^typ>\<open>complex\<close>; one-dimensional arrays are lists, two-dimensional arrays are lists
  of rows. Every \<open>raise\<close> of the source, and every exception the interpreter or
  NumPy raises on the paths modelled here, is a value of \<open>error\<close>.
  The scalar division and the elementwise products and sums of \<open>rotate_orb_cc\<close>
  are single IEEE operations and are rounded to binary64 with \<open>fl\<close> below. The
  reductions (\<open>numpy.einsum\<close>, \<open>numpy.dot\<close>, \<open>numpy.linalg.norm\<close>) and
  \<open>**\<close> have no fixed order of rounding in the source at hand; they are exact
  here, and statements about their values are statements of exact arithmetic.
\<close>

datatype error =
    RuntimeError string
  | ZeroDivisionError
  | ValueError
  | IndexError
  | KeyError string
  | NameError string
  | UnboundLocalError string
  | NonFinite

text \<open>
  \<open>NonFinite\<close> is not an exception: NumPy divides a float64 by zero without raising
  and goes on with \<open>inf\<close> and \<open>nan\<close> entries, values that \<^typ>\<open>real\<close> does not
  have. The model stops with \<open>NonFinite\<close> at such a division instead of using the
  convention \<open>x / 0 = 0\<close> of HOL.
\<close>

type_synonym vec = "real list"
type_synonym mat = "real list list"
type_synonym cmat = "complex list list"

section \<open>Rounding to binary64\<close>

text \<open>
  \<open>fl x\<close> is the binary64 number nearest to \<open>x\<close>, ties to the even
  significand: the significand has 53 bits, the exponent of a normal number is at
  least \<open>-1022\<close>, and below \<open>2^-1022\<close> the spacing stays \<open>2^-1074\<close>
  (gradual underflow). There is no largest exponent: overflow is not modelled, and
  none of the operations rounded below can overflow on binary64 operands (a quotient
  of a smaller by a larger number, and products with it).
\<close>

definition round_even :: "real \<Rightarrow> int" where
  "round_even y =
     (let f = \<lfloor>y\<rfloor>
      in if y - of_int f < 1 / 2 then f
         else if 1 / 2 < y - of_int f then f + 1
         else if even f then f else f + 1)"

definition ulp_exp :: "real \<Rightarrow> int" where
  "ulp_exp x = max \<lfloor>log 2 \<bar>x\<bar>\<rfloor> (- 1022) - 52"

definition fl :: "real \<Rightarrow> real" where
  "fl x = of_int (round_even (x / 2 powr of_int (ulp_exp x))) * 2 powr of_int (ulp_exp x)"

section \<open>\<open>pbc/scf/khf.py\<close>: electronic energy over k-points\<close>

text \<open>
  \<open>numpy.einsum('kij,kji', a, b)\<close>: the sum over \<open>k\<close>, \<open>i\<close>, \<open>j\<close> of
  \<open>a[k,i,j] * b[k,j,i]\<close>. The operand \<open>a\<close> has shape \<open>(K, I, J)\<close> and
  \<open>b\<close> has shape \<open>(K', J', I')\<close>; the two extents of a label are broadcast
  (equal, or one of them \<open>1\<close>, whose only entry is then used for every index);
  NumPy raises ValueError otherwise.
\<close>

definition shape3 :: "'a list list list \<Rightarrow> nat \<Rightarrow> nat \<Rightarrow> nat \<Rightarrow> bool" where
  "shape3 a K I J \<longleftrightarrow>
     length a = K \<and> list_all (\<lambda>m. length m = I \<and> list_all (\<lambda>r. length r = J) m) a"

definition dims3 :: "'a list list list \<Rightarrow> nat \<times> nat \<times> nat" where
  "dims3 a =
     (length a,
      (case a of [] \<Rightarrow> 0 | m # _ \<Rightarrow> length m),
      (case a of [] \<Rightarrow> 0 | m # _ \<Rightarrow> (case m of [] \<Rightarrow> 0 | r # _ \<Rightarrow> length r)))"

definition bdim :: "nat \<Rightarrow> nat \<Rightarrow> nat option" where
  "bdim m n = (if m = n then Some m else if m = 1 then Some n else if n = 1 then Some m else None)"

definition bidx :: "nat \<Rightarrow> nat \<Rightarrow> nat" where
  "bidx n k = (if n = 1 then 0 else k)"

definition einsum_kij_kji :: "cmat list \<Rightarrow> cmat list \<Rightarrow> error + complex" where
  "einsum_kij_kji a b =
     (case (dims3 a, dims3 b) of
        ((Ka, Ia, Ja), (Kb, Jb, Ib)) \<Rightarrow>
          if shape3 a Ka Ia Ja \<and> shape3 b Kb Jb Ib
          then (case (bdim Ka Kb, bdim Ia Ib, bdim Ja Jb) of
                  (Some K, Some I, Some J) \<Rightarrow>
                    Inr (\<Sum>k \<leftarrow> [0..<K]. \<Sum>i \<leftarrow> [0..<I]. \<Sum>j \<leftarrow> [0..<J].
                           a ! bidx Ka k ! bidx Ia i ! bidx Ja j * b ! bidx Kb k ! bidx Jb j ! bidx Ib i)
                | _ \<Rightarrow> Inl ValueError)
          else Inl ValueError)"

text \<open>
  \<open>abs\<close> applied to a NumPy boolean gives the boolean back, so the test of
  line 260, \<open>abs(e_coul.imag > 1.e-10)\<close>, is the truth value of the comparison.
\<close>

definition abs_bool :: "bool \<Rightarrow> bool" where
  "abs_bool b = b"

text \<open>
  \<open>energy_elec\<close> with its three arrays given (the defaults \<open>mf.make_rdm1()\<close>,
  \<open>mf.get_hcore()\<close>, \<open>mf.get_veff\<close> only supply them). \<open>1./nkpts\<close> raises
  ZeroDivisionError for an empty list of k-points. The RuntimeError carries the
  message of the source. The debug log line has no effect on the result.
\<close>

definition energy_elec :: "cmat list \<Rightarrow> cmat list \<Rightarrow> cmat list \<Rightarrow> error + real \<times> real" where
  "energy_elec dm_kpts h1e_kpts vhf_kpts =
     (let nkpts = length dm_kpts in
      if nkpts = 0 then Inl ZeroDivisionError
      else case einsum_kij_kji dm_kpts h1e_kpts of
        Inl err \<Rightarrow> Inl err
      | Inr s1 \<Rightarrow>
          (case einsum_kij_kji dm_kpts vhf_kpts of
             Inl err \<Rightarrow> Inl err
           | Inr s2 \<Rightarrow>
               (let e1 = complex_of_real (1 / real nkpts) * s1;
                    e_coul = complex_of_real (1 / real nkpts) * s2 * complex_of_real 0.5
                in if abs_bool (Im e_coul > 1 / 10 ^ 10)
                   then Inl (RuntimeError ''Coulomb energy has imaginary part, something is wrong!'')
                   else Inr (Re e1 + Re e_coul, Re e_coul))))"

section \<open>NumPy operations on one-dimensional arrays\<close>

text \<open>
  Elementwise arithmetic of two one-dimensional arrays broadcasts an operand of length
  one and raises ValueError for any other pair of different lengths; \<open>numpy.dot\<close> of
  two one-dimensional arrays needs equal lengths; \<open>numpy.linalg.norm\<close> is the
  2-norm; \<open>numpy.max\<close> of an empty array raises ValueError.
\<close>

definition np_binop :: "(real \<Rightarrow> real \<Rightarrow> real) \<Rightarrow> vec \<Rightarrow> vec \<Rightarrow> error + vec" where
  "np_binop f a b =
     (if length a = length b then Inr (map2 f a b)
      else case b of
        [y] \<Rightarrow> Inr (map (\<lambda>x. f x y) a)
      | _ \<Rightarrow> (case a of [x] \<Rightarrow> Inr (map (f x) b) | _ \<Rightarrow> Inl ValueError))"


definition smul :: "real \<Rightarrow> vec \<Rightarrow> vec" where
  "smul c a = map (\<lambda>x. x * c) a"


definition amax :: "vec \<Rightarrow> error + real" where
  "amax a = (if a = [] then Inl ValueError else Inr (Max (set (map abs a))))"

section \<open>\<open>mcscf/mc1step.py\<close>: the CASSCF object\<close>

text \<open>
  \<open>frozen\<close> is \<open>None\<close>, an integer or a sequence of indices
  (\<open>uniq_var_indices\<close> tells them apart with \<open>isinstance\<close>).
\<close>

datatype frozen_spec = FrozenNone | FrozenCount int | FrozenList "int list"

text \<open>
  The attributes of \<open>CASSCF.__init__\<close> (and of its base class \<open>CASCI\<close>) that the
  embedded methods read. \<open>max_stepsize_cur\<close> is the attribute \<open>_max_stepsize\<close>,
  the only one the driver writes. CI vectors are kept flattened: the source ravels
  them before every arithmetic step. Four-index arrays are opaque to the code modelled
  here and kept as flat lists.
\<close>

type_synonym tensor = "real list"

record casscf =
  ncas :: nat
  ncore :: nat
  nelecas :: "nat \<times> nat"
  frozen :: frozen_spec
  max_stepsize :: real
  max_cycle_macro :: int
  max_cycle_micro :: int
  conv_tol :: real
  conv_tol_grad :: "real option"
  internal_rotation :: bool
  ci_response_space :: int
  ci_grad_trust_region :: real
  canonicalization :: bool
  natorb :: bool
  max_memory :: real
  mo_coeff :: mat
  max_stepsize_cur :: "real option"

text \<open>
  The CI solver plugged in as \<open>fcisolver\<close>. The source asks with \<open>hasattr\<close>
  whether \<open>approx_kernel\<close>, \<open>contract_2e\<close>, \<open>absorb_h1e\<close> and \<open>spin_square\<close>
  exist, so these are optional. The arguments of \<open>kernel\<close> are
  \<open>h1, h2, ncas, nelecas, ci0, tol, max_memory, max_cycle\<close>; \<open>tol\<close> is \<open>None\<close>
  or a float, \<open>max_cycle\<close> is left out by some calls.
\<close>

record 'h fcisolver =
  fci_kernel :: "mat \<Rightarrow> tensor \<Rightarrow> nat \<Rightarrow> nat \<times> nat \<Rightarrow> vec \<Rightarrow> real option \<Rightarrow> real \<Rightarrow> int option \<Rightarrow> real \<times> vec"
  approx_kernel :: "(mat \<Rightarrow> tensor \<Rightarrow> nat \<Rightarrow> nat \<times> nat \<Rightarrow> vec \<Rightarrow> real option \<Rightarrow> real \<Rightarrow> real \<times> vec) option"
  contract_2e :: "('h \<Rightarrow> vec \<Rightarrow> nat \<Rightarrow> nat \<times> nat \<Rightarrow> vec) option"
  absorb_h1e :: "(mat \<Rightarrow> tensor \<Rightarrow> nat \<Rightarrow> nat \<times> nat \<Rightarrow> real \<Rightarrow> 'h) option"
  make_rdm12 :: "vec \<Rightarrow> nat \<Rightarrow> nat \<times> nat \<Rightarrow> mat \<times> tensor"
  spin_square :: "(vec \<Rightarrow> nat \<Rightarrow> nat \<times> nat \<Rightarrow> real \<times> real) option"

text \<open>
  The \<open>envs\<close> dictionaries are the \<open>locals()\<close> of the caller; the methods below
  read numbers from them and test keys for presence.
\<close>

type_synonym envs = "string \<rightharpoonup> real"

text \<open>
  \<open>CASSCF.__init__\<close>, lines 589 to 649. The base class \<open>CASCI\<close> sets
  \<open>ncore\<close>, \<open>canonicalization\<close>, \<open>natorb\<close> and \<open>max_memory\<close>, and the
  mean-field object gives \<open>mo_coeff\<close>; its file is not part of the sources at hand,
  so these are arguments.
\<close>

definition casscf_init ::
  "mat \<Rightarrow> real \<Rightarrow> bool \<Rightarrow> bool \<Rightarrow> nat \<Rightarrow> nat \<times> nat \<Rightarrow> nat \<Rightarrow> frozen_spec \<Rightarrow> casscf" where
  "casscf_init mf_mo_coeff mf_max_memory canon nat_orb ncas0 nelecas0 ncore0 frozen0 =
     \<lparr>ncas = ncas0, ncore = ncore0, nelecas = nelecas0, frozen = frozen0,
      max_stepsize = 0.03, max_cycle_macro = 50, max_cycle_micro = 4,
      conv_tol = 1 / 10 ^ 7, conv_tol_grad = None, internal_rotation = False,
      ci_response_space = 4, ci_grad_trust_region = 3,
      canonicalization = canon, natorb = nat_orb, max_memory = mf_max_memory,
      mo_coeff = mf_mo_coeff, max_stepsize_cur = None\<rparr>"

section \<open>\<open>CASSCF.solve_approx_ci\<close>\<close>

text \<open>Lines 931 to 934: the tolerance handed to the CI solver.\<close>

definition ci_tol :: "casscf \<Rightarrow> envs \<Rightarrow> real option" where
  "ci_tol mc envs =
     (case envs ''norm_gorb'' of
        Some norm_gorb \<Rightarrow> Some (max (conv_tol mc) (norm_gorb\<^sup>2 * 0.1))
      | None \<Rightarrow> None)"

text \<open>
  Lines 961 to 973: the vectors \<open>xs\<close> and their images \<open>ax\<close> under the Hamiltonian
  contraction \<open>hop\<close>, started from \<open>[ci0]\<close> and \<open>[hc]\<close> and extended \<open>n\<close> times.
\<close>

fun krylov :: "(vec \<Rightarrow> vec) \<Rightarrow> real \<Rightarrow> nat \<Rightarrow> vec list \<Rightarrow> vec list \<Rightarrow> error + vec list \<times> vec list" where
  "krylov hop e_ci 0 xs ax = Inr (xs, ax)"
| "krylov hop e_ci (Suc n) xs ax =
     (case np_binop (-) (last ax) (smul e_ci (last xs)) of
        Inl err \<Rightarrow> Inl err
      | Inr x \<Rightarrow> krylov hop e_ci n (xs @ [x]) (ax @ [hop x]))"

text \<open>
  The entries \<open>heff[i,j] = heff[j,i] = dot(xs[i], ax[j])\<close> and
  \<open>seff[i,j] = seff[j,i] = dot(xs[i], xs[j])\<close> for \<open>j \<le> i\<close>, with
  \<open>seff[0,0] = 1\<close>. Every pair of vectors meets in a \<open>numpy.dot\<close>, which raises
  ValueError unless all of them have one length.
\<close>

definition dotp :: "vec \<Rightarrow> vec \<Rightarrow> real" where
  "dotp a b = (\<Sum>(x, y) \<leftarrow> zip a b. x * y)"

definition heff_of :: "vec list \<Rightarrow> vec list \<Rightarrow> mat" where
  "heff_of xs ax =
     map (\<lambda>i. map (\<lambda>j. dotp (xs ! max i j) (ax ! min i j)) [0..<length xs]) [0..<length xs]"

definition seff_of :: "vec list \<Rightarrow> mat" where
  "seff_of xs =
     map (\<lambda>i. map (\<lambda>j. if i = 0 \<and> j = 0 then 1 else dotp (xs ! max i j) (xs ! min i j))
                [0..<length xs]) [0..<length xs]"

text \<open>Lines 975 to 977: \<open>ci1 = sum of xs[i] * v[i,0]\<close>; a missing entry of \<open>v\<close> is an IndexError.\<close>

fun combine :: "mat \<Rightarrow> nat \<Rightarrow> vec list \<Rightarrow> vec \<Rightarrow> error + vec" where
  "combine v i [] acc = Inr acc"
| "combine v i (x # xs) acc =
     (if i < length v \<and> 0 < length (v ! i)
      then (case np_binop (+) acc (smul (v ! i ! 0) x) of
              Inl err \<Rightarrow> Inl err
            | Inr acc' \<Rightarrow> combine v (Suc i) xs acc')
      else Inl IndexError)"

text \<open>
  Lines 959 to 977: the response in a subspace of at most \<open>nd\<close> vectors.
  \<open>safe_eigh\<close> is \<open>lib.safe_eigh\<close>, from outside this file. \<open>heff[0,0]\<close> is
  assigned first, an IndexError when \<open>nd = 0\<close>.
\<close>

definition subspace_ci ::
  "casscf \<Rightarrow> (mat \<Rightarrow> mat \<Rightarrow> vec \<times> mat) \<Rightarrow> (vec \<Rightarrow> vec) \<Rightarrow> vec \<Rightarrow> vec \<Rightarrow> real \<Rightarrow> error + vec" where
  "subspace_ci mc safe_eigh hop ci0 hc e_ci =
     (let nd = nat (min (max (ci_response_space mc) 2) (int (length ci0)))
      in if length hc \<noteq> length ci0 then Inl ValueError
         else if nd = 0 then Inl IndexError
         else case krylov hop e_ci (nd - 1) [ci0] [hc] of
           Inl err \<Rightarrow> Inl err
         | Inr (xs, ax) \<Rightarrow>
             if list_all (\<lambda>x. length x = length ci0) (xs @ ax)
             then (case safe_eigh (heff_of xs ax) (seff_of xs) of
                     (e, v) \<Rightarrow>
                       if 0 < length v \<and> 0 < length (v ! 0)
                       then combine v 1 (tl xs) (smul (v ! 0 ! 0) ci0)
                       else Inl IndexError)
             else Inl ValueError)"

text \<open>
  \<open>solve_approx_ci\<close>, lines 924 to 978. \<open>current_memory\<close> is the reading of
  \<open>lib.current_memory()[0]\<close>. The result is the pair \<open>(ci1, g)\<close> with
  \<open>g = None\<close> on the first two paths.
\<close>

definition solve_approx_ci ::
  "casscf \<Rightarrow> 'h fcisolver \<Rightarrow> (mat \<Rightarrow> mat \<Rightarrow> vec \<times> mat) \<Rightarrow> real \<Rightarrow>
   mat \<Rightarrow> tensor \<Rightarrow> vec \<Rightarrow> real \<Rightarrow> real \<Rightarrow> envs \<Rightarrow> error + vec \<times> vec option" where
  "solve_approx_ci mc fs safe_eigh current_memory h1 h2 ci0 ecore e_ci envs =
     (let tol = ci_tol mc envs in
      case approx_kernel fs of
        Some fn \<Rightarrow> Inr (snd (fn h1 h2 (ncas mc) (nelecas mc) ci0 tol (max_memory mc)), None)
      | None \<Rightarrow>
          (case (contract_2e fs, absorb_h1e fs) of
             (Some contract, Some absorb) \<Rightarrow>
               (let h2eff = absorb h1 h2 (ncas mc) (nelecas mc) 0.5;
                    hop = (\<lambda>x. contract h2eff x (ncas mc) (nelecas mc));
                    hc = hop ci0
                in case np_binop (-) hc (smul (e_ci - ecore) ci0) of
                     Inl err \<Rightarrow> Inl err
                   | Inr g \<Rightarrow>
                       if ci_response_space mc > 7
                       then Inr (snd (fci_kernel fs h1 h2 (ncas mc) (nelecas mc) ci0 tol
                                        (max 400 (max_memory mc - current_memory)) None), Some g)
                       else (case subspace_ci mc safe_eigh hop ci0 hc e_ci of
                               Inl err \<Rightarrow> Inl err
                             | Inr ci1 \<Rightarrow> Inr (ci1, Some g)))
           | _ \<Rightarrow>
               Inr (snd (fci_kernel fs h1 h2 (ncas mc) (nelecas mc) ci0 tol (max_memory mc)
                           (Some (ci_response_space mc))), None)))"

section \<open>\<open>CASSCF.update_casdm\<close>\<close>



section \<open>The accepted step of \<open>rotate_orb_cc\<close>\<close>

text \<open>
  Lines 271 to 278: the step \<open>dxi\<close> of the Davidson solver and its Hessian image
  \<open>hdxi\<close> are rescaled in place when the largest component of \<open>dxi\<close> is above
  \<open>max_stepsize\<close> (the argument \<open>max_step\<close> here, since the attribute of the
  object has the name). \<open>scale = max_stepsize / dxmax\<close> is one rounded division and
  \<open>dxi *= scale\<close>, \<open>hdxi *= scale\<close> are one rounded product for each entry.
  The result is the pair after the branch, with \<open>scale\<close>.
\<close>

definition clip_step :: "real \<Rightarrow> vec \<Rightarrow> vec \<Rightarrow> error + vec \<times> vec \<times> real option" where
  "clip_step max_step dxi hdxi =
     (case amax dxi of
        Inl err \<Rightarrow> Inl err
      | Inr dxmax \<Rightarrow>
          if dxmax > max_step
          then (if dxmax = 0 then Inl NonFinite
                else (let scale = fl (max_step / dxmax)
                      in Inr (map (\<lambda>x. fl (x * scale)) dxi, map (\<lambda>x. fl (x * scale)) hdxi,
                              Some scale)))
          else Inr (dxi, hdxi, None))"

text \<open>
  Lines 280 to 284: the step is added to the running gradient \<open>g_orb\<close> and to the
  running rotation \<open>dr\<close> (the scalar \<open>0\<close> before the first step, \<open>None\<close> here),
  entry by entry with one rounded sum each.
\<close>

definition accept_step ::
  "real \<Rightarrow> vec \<Rightarrow> vec option \<Rightarrow> vec \<Rightarrow> vec \<Rightarrow> error + vec \<times> vec \<times> vec \<times> vec" where
  "accept_step max_step g_orb dr dxi hdxi =
     (case clip_step max_step dxi hdxi of
        Inl err \<Rightarrow> Inl err
      | Inr (dxi', hdxi', scale) \<Rightarrow>
          (case np_binop (\<lambda>a b. fl (a + b)) g_orb hdxi' of
             Inl err \<Rightarrow> Inl err
           | Inr g_orb' \<Rightarrow>
               (case (case dr of None \<Rightarrow> Inr dxi' | Some d \<Rightarrow> np_binop (\<lambda>a b. fl (a + b)) d dxi') of
                  Inl err \<Rightarrow> Inl err
                | Inr dr' \<Rightarrow> Inr (g_orb', dr', dxi', hdxi'))))"


section \<open>NumPy operations on two-dimensional arrays\<close>

text \<open>
  \<open>ncols m\<close> is \<open>m.shape[1]\<close> and \<open>is_shape r c m\<close> says that \<open>m\<close> has
  \<open>r\<close> rows of \<open>c\<close> entries. \<open>tabulate2 r c f\<close> is the array with the entry
  \<open>f i j\<close> at \<open>[i, j]\<close>. \<open>assign_where P x m\<close> is \<open>m\<close> after an assignment
  \<open>m[...] = x\<close> whose index selects the positions \<open>[i, j]\<close> with \<open>P i j\<close>; a
  slice is cut to the extent of the array, so only positions of the array are
  written.
\<close>

definition ncols :: "'a list list \<Rightarrow> nat" where
  "ncols m = (case m of [] \<Rightarrow> 0 | r # _ \<Rightarrow> length r)"

definition is_shape :: "nat \<Rightarrow> nat \<Rightarrow> 'a list list \<Rightarrow> bool" where
  "is_shape r c m \<longleftrightarrow> length m = r \<and> list_all (\<lambda>row. length row = c) m"

definition tabulate2 :: "nat \<Rightarrow> nat \<Rightarrow> (nat \<Rightarrow> nat \<Rightarrow> 'a) \<Rightarrow> 'a list list" where
  "tabulate2 r c f = map (\<lambda>i. map (\<lambda>j. f i j) [0..<c]) [0..<r]"

definition assign_where :: "(nat \<Rightarrow> nat \<Rightarrow> bool) \<Rightarrow> 'a \<Rightarrow> 'a list list \<Rightarrow> 'a list list" where
  "assign_where P x m =
     map (\<lambda>i. map (\<lambda>j. if P i j then x else m ! i ! j) [0..<length (m ! i)]) [0..<length m]"

text \<open>
  \<open>slice_stop k n\<close> is the number of leading indices that the slice \<open>[:k]\<close>
  selects from \<open>n\<close>: a negative \<open>k\<close> counts from the end.
  \<open>norm_indices n idx\<close> is the index array \<open>idx\<close> with the negative indices
  wrapped; an index outside \<open>-n .. n-1\<close> raises IndexError.
\<close>

definition slice_stop :: "int \<Rightarrow> nat \<Rightarrow> nat" where
  "slice_stop k n = (if k < 0 then nat (int n + k) else min (nat k) n)"

fun norm_indices :: "nat \<Rightarrow> int list \<Rightarrow> error + nat list" where
  "norm_indices n [] = Inr []"
| "norm_indices n (i # idx) =
     (if 0 \<le> i \<and> i < int n \<or> - int n \<le> i \<and> i < 0
      then (case norm_indices n idx of
              Inl err \<Rightarrow> Inl err
            | Inr js \<Rightarrow> Inr (nat (if i < 0 then int n + i else i) # js))
      else Inl IndexError)"

text \<open>
  \<open>gather msk m\<close> is \<open>m[msk]\<close> for a boolean array \<open>msk\<close> of the shape of
  \<open>m\<close>: the entries at the \<open>True\<close> positions in row-major order.
  \<open>scatter msk v\<close> is the array of zeros after \<open>mat[msk] = v\<close>: the entries of
  \<open>v\<close> go to the \<open>True\<close> positions in row-major order (it is called with
  a \<open>v\<close> that has one entry for each of them; an entry that is missing would read
  as zero). \<open>count_true\<close> is the number of \<open>True\<close> positions.
\<close>

fun gather_row :: "bool list \<Rightarrow> 'a list \<Rightarrow> 'a list" where
  "gather_row (b # bs) (x # xs) = (if b then x # gather_row bs xs else gather_row bs xs)"
| "gather_row _ _ = []"

fun gather :: "bool list list \<Rightarrow> 'a list list \<Rightarrow> 'a list" where
  "gather (bs # msk) (r # m) = gather_row bs r @ gather msk m"
| "gather _ _ = []"

fun scatter_row :: "bool list \<Rightarrow> vec \<Rightarrow> vec \<times> vec" where
  "scatter_row [] v = ([], v)"
| "scatter_row (b # bs) v =
     (if b
      then (case scatter_row bs (tl v) of (r, rest) \<Rightarrow> ((case v of [] \<Rightarrow> 0 | x # _ \<Rightarrow> x) # r, rest))
      else (case scatter_row bs v of (r, rest) \<Rightarrow> (0 # r, rest)))"

fun scatter :: "bool list list \<Rightarrow> vec \<Rightarrow> mat" where
  "scatter [] v = []"
| "scatter (bs # msk) v = (case scatter_row bs v of (r, rest) \<Rightarrow> r # scatter msk rest)"

definition count_true :: "bool list list \<Rightarrow> nat" where
  "count_true msk = length (filter id (concat msk))"

section \<open>\<open>CASSCF.uniq_var_indices\<close>, \<open>pack_uniq_var\<close>, \<open>unpack_uniq_var\<close>\<close>

text \<open>
  Lines 775 to 780: the mask before \<open>frozen\<close> is looked at. The active-core block
  and the virtual-occupied block are set; with \<open>internal_rotation\<close> the strict
  lower triangle of the active-active block is set through
  \<open>numpy.tril_indices(ncas, -1)\<close>, whose indices fall outside the block (IndexError)
  when the block cut to the array has fewer than \<open>ncas\<close> rows and there is an index
  at all (\<open>ncas >= 2\<close>).
\<close>

definition block_mask :: "casscf \<Rightarrow> nat \<Rightarrow> nat \<Rightarrow> nat \<Rightarrow> error + bool list list" where
  "block_mask mc nmo ncore' ncas' =
     (let nocc = ncore' + ncas';
          msk0 = replicate nmo (replicate nmo False);
          msk1 = assign_where (\<lambda>i j. ncore' \<le> i \<and> i < nocc \<and> j < ncore') True msk0;
          msk2 = assign_where (\<lambda>i j. nocc \<le> i \<and> j < nocc) True msk1
      in if internal_rotation mc
         then (if 2 \<le> ncas' \<and> min nocc nmo - min ncore' nmo < ncas' then Inl IndexError
               else Inr (assign_where (\<lambda>i j. ncore' \<le> j \<and> j < i \<and> i < nocc) True msk2))
         else Inr msk2)"

text \<open>
  Lines 781 to 787: an integer \<open>frozen\<close> clears the first rows and columns through
  the slices \<open>[:frozen]\<close>; a sequence clears the rows and columns it lists, as an
  integer index array. \<open>numpy.asarray\<close> of an empty sequence is an array of floats,
  which NumPy refuses as an index (IndexError).
\<close>

definition uniq_var_indices ::
  "casscf \<Rightarrow> nat \<Rightarrow> nat \<Rightarrow> nat \<Rightarrow> frozen_spec \<Rightarrow> error + bool list list" where
  "uniq_var_indices mc nmo ncore' ncas' frozen' =
     (case block_mask mc nmo ncore' ncas' of
        Inl err \<Rightarrow> Inl err
      | Inr msk \<Rightarrow>
          (case frozen' of
             FrozenNone \<Rightarrow> Inr msk
           | FrozenCount k \<Rightarrow>
               Inr (assign_where (\<lambda>i j. i < slice_stop k nmo \<or> j < slice_stop k nmo) False msk)
           | FrozenList idx \<Rightarrow>
               (if idx = [] then Inl IndexError
                else case norm_indices nmo idx of
                       Inl err \<Rightarrow> Inl err
                     | Inr js \<Rightarrow> Inr (assign_where (\<lambda>i j. i \<in> set js \<or> j \<in> set js) False msk))))"

text \<open>
  Lines 789 to 792. \<open>mat[idx]\<close> raises IndexError when the shape of \<open>mat\<close> is
  not that of the mask.
\<close>

definition pack_uniq_var :: "casscf \<Rightarrow> mat \<Rightarrow> error + vec" where
  "pack_uniq_var mc m =
     (let nmo = ncols (mo_coeff mc)
      in case uniq_var_indices mc nmo (ncore mc) (ncas mc) (frozen mc) of
           Inl err \<Rightarrow> Inl err
         | Inr idx \<Rightarrow> if is_shape nmo nmo m then Inr (gather idx m) else Inl IndexError)"

text \<open>
  Lines 795 to 800. The assignment \<open>mat[idx] = v\<close> takes a \<open>v\<close> with one entry
  for each \<open>True\<close> position, or broadcasts a \<open>v\<close> of one entry, and raises
  ValueError for any other length. Each entry of \<open>mat - mat.T\<close> is a difference
  with a zero in it (the mask lies below the diagonal), so it is exact.
\<close>

definition mask_values :: "nat \<Rightarrow> vec \<Rightarrow> error + vec" where
  "mask_values n v =
     (if length v = n then Inr v
      else case v of [x] \<Rightarrow> Inr (replicate n x) | _ \<Rightarrow> Inl ValueError)"

definition unpack_uniq_var :: "casscf \<Rightarrow> vec \<Rightarrow> error + mat" where
  "unpack_uniq_var mc v =
     (let nmo = ncols (mo_coeff mc)
      in case uniq_var_indices mc nmo (ncore mc) (ncas mc) (frozen mc) of
           Inl err \<Rightarrow> Inl err
         | Inr idx \<Rightarrow>
             (case mask_values (count_true idx) v of
                Inl err \<Rightarrow> Inl err
              | Inr vals \<Rightarrow>
                  (let m = scatter idx vals
                   in Inr (tabulate2 nmo nmo (\<lambda>i j. m ! i ! j - m ! j ! i)))))"

text \<open>
  The words of the claims about these three methods: an antisymmetric \<open>n\<close> by
  \<open>n\<close> array; the orbitals frozen by a count \<open>k\<close> (the first \<open>k\<close>) or by a
  list of indices; the redundant pairs of orbitals (core-core, virtual-virtual, and
  active-active unless \<open>internal_rotation\<close> is set); an array that is zero at the
  pairs \<open>P\<close>; and a valid partition: \<open>ncore + ncas\<close> orbitals exist, a frozen
  count is not negative, a frozen list is not empty and lists orbitals that exist.
\<close>

definition antisymmetric :: "nat \<Rightarrow> mat \<Rightarrow> bool" where
  "antisymmetric n m \<longleftrightarrow>
     is_shape n n m \<and> list_all (\<lambda>i. list_all (\<lambda>j. m ! i ! j = - m ! j ! i) [0..<n]) [0..<n]"

definition masked :: "bool list list \<Rightarrow> mat \<Rightarrow> mat" where
  "masked msk m = map2 (map2 (\<lambda>b x. if b then x else 0)) msk m"

definition frozen_orbital :: "frozen_spec \<Rightarrow> nat \<Rightarrow> bool" where
  "frozen_orbital fz i =
     (case fz of FrozenNone \<Rightarrow> False | FrozenCount k \<Rightarrow> int i < k | FrozenList idx \<Rightarrow> int i \<in> set idx)"

definition redundant_pair :: "casscf \<Rightarrow> nat \<Rightarrow> nat \<Rightarrow> bool" where
  "redundant_pair mc i j \<longleftrightarrow>
     (i < ncore mc \<and> j < ncore mc) \<or>
     (ncore mc + ncas mc \<le> i \<and> ncore mc + ncas mc \<le> j) \<or>
     (if internal_rotation mc then False
      else ncore mc \<le> i \<and> i < ncore mc + ncas mc \<and> ncore mc \<le> j \<and> j < ncore mc + ncas mc)"

definition zero_where :: "nat \<Rightarrow> (nat \<Rightarrow> nat \<Rightarrow> bool) \<Rightarrow> mat \<Rightarrow> bool" where
  "zero_where n P m \<longleftrightarrow>
     list_all (\<lambda>i. list_all (\<lambda>j. if P i j then m ! i ! j = 0 else True) [0..<n]) [0..<n]"

definition redundant_blocks_zero :: "casscf \<Rightarrow> nat \<Rightarrow> mat \<Rightarrow> bool" where
  "redundant_blocks_zero mc n m = zero_where n (redundant_pair mc) m"

definition frozen_zero :: "casscf \<Rightarrow> nat \<Rightarrow> mat \<Rightarrow> bool" where
  "frozen_zero mc n m =
     zero_where n (\<lambda>i j. frozen_orbital (frozen mc) i \<or> frozen_orbital (frozen mc) j) m"

definition valid_partition :: "casscf \<Rightarrow> bool" where
  "valid_partition mc \<longleftrightarrow>
     ncore mc + ncas mc \<le> ncols (mo_coeff mc) \<and>
     (case frozen mc of
        FrozenNone \<Rightarrow> True
      | FrozenCount k \<Rightarrow> 0 \<le> k
      | FrozenList idx \<Rightarrow> idx \<noteq> [] \<and> list_all (\<lambda>i. 0 \<le> i \<and> i < int (ncols (mo_coeff mc))) idx)"


section \<open>Objects of the examples\<close>

text \<open>
  Small collaborators for the concrete runs below: CI solvers whose
  \<open>approx_kernel\<close> or \<open>kernel\<close> returns the tolerance it was called with as its
  vector, CI solvers over two determinants with a fixed Hamiltonian image, an
  eigensolver and an integral builder that return empty arrays.
\<close>

definition echo_solver :: "unit fcisolver" where
  "echo_solver =
     \<lparr>fci_kernel = (\<lambda>h1 h2 n ne c tol mm mc. (0, c)),
      approx_kernel = Some (\<lambda>h1 h2 n ne c tol mm. (0, case tol of None \<Rightarrow> [] | Some t \<Rightarrow> [t])),
      contract_2e = None, absorb_h1e = None,
      make_rdm12 = (\<lambda>c n ne. ([], [])), spin_square = None\<rparr>"


definition echo_kernel_solver :: "unit fcisolver" where
  "echo_kernel_solver =
     \<lparr>fci_kernel = (\<lambda>h1 h2 n ne c tol mm mc. (0, case tol of None \<Rightarrow> [] | Some t \<Rightarrow> [t])),
      approx_kernel = None, contract_2e = None, absorb_h1e = None,
      make_rdm12 = (\<lambda>c n ne. ([], [])), spin_square = None\<rparr>"

definition echo_response_solver :: "unit fcisolver" where
  "echo_response_solver =
     \<lparr>fci_kernel = (\<lambda>h1 h2 n ne c tol mm mc. (0, case tol of None \<Rightarrow> [] | Some t \<Rightarrow> [t])),
      approx_kernel = None,
      contract_2e = Some (\<lambda>h c n ne. c),
      absorb_h1e = Some (\<lambda>h1 h2 n ne f. ()),
      make_rdm12 = (\<lambda>c n ne. ([], [])), spin_square = None\<rparr>"


definition no_eigh :: "mat \<Rightarrow> mat \<Rightarrow> vec \<times> mat" where
  "no_eigh heff seff = ([], [])"


definition frozen_core_example :: casscf where
  "frozen_core_example = casscf_init [[1, 0], [0, 1]] 4000 True False 1 (1, 1) 1 (FrozenCount 1)"

definition three_orbital_example :: casscf where
  "three_orbital_example = casscf_init [[1, 0, 0], [0, 1, 0], [0, 0, 1]] 4000 True False 1 (1, 1) 1 FrozenNone"

section \<open>Properties\<close>

subsection \<open>Claim C2\<close>

paragraph \<open>Arrays\<close>

lemma tabulate2_length [simp]: "length (tabulate2 r c f) = r"
  by (simp add: tabulate2_def)

lemma tabulate2_row_length [simp]: "i < r \<Longrightarrow> length (tabulate2 r c f ! i) = c"
  by (simp add: tabulate2_def)

lemma tabulate2_nth [simp]: "i < r \<Longrightarrow> j < c \<Longrightarrow> tabulate2 r c f ! i ! j = f i j"
  by (simp add: tabulate2_def)

lemma is_shape_nth: "is_shape r c m \<longleftrightarrow> length m = r \<and> (\<forall>i<r. length (m ! i) = c)"
  by (auto simp: is_shape_def list_all_length)

lemma is_shape_tabulate2 [simp]: "is_shape r c (tabulate2 r c f)"
  by (simp add: is_shape_nth)

lemma mat_eqI:
  assumes "is_shape r c a" "is_shape r c b" "\<And>i j. i < r \<Longrightarrow> j < c \<Longrightarrow> a ! i ! j = b ! i ! j"
  shows "a = b"
proof (rule nth_equalityI)
  show "length a = length b" using assms by (simp add: is_shape_nth)
  fix i assume "i < length a"
  then have i: "i < r" using assms by (simp add: is_shape_nth)
  show "a ! i = b ! i"
    by (rule nth_equalityI) (use assms i in \<open>auto simp: is_shape_nth\<close>)
qed

lemma assign_where_shape: "is_shape r c m \<Longrightarrow> is_shape r c (assign_where P x m)"
  by (simp add: is_shape_nth assign_where_def)

lemma assign_where_nth:
  "is_shape r c m \<Longrightarrow> i < r \<Longrightarrow> j < c \<Longrightarrow>
   assign_where P x m ! i ! j = (if P i j then x else m ! i ! j)"
  by (simp add: is_shape_nth assign_where_def)

lemma zeros_shape: "is_shape n n (replicate n (replicate n x))"
  by (simp add: is_shape_nth)

paragraph \<open>gather and scatter\<close>

lemma gather_row_length: "length bs = length r \<Longrightarrow> length (gather_row bs r) = length (filter id bs)"
  by (induction bs r rule: list_induct2) simp_all

lemma gather_row_masked:
  "gather_row bs r = gather_row bs (map2 (\<lambda>b x. if b then x else 0) bs r)"
  by (induction bs r rule: gather_row.induct) simp_all

lemma gather_masked: "gather msk m = gather msk (masked msk m)"
proof (induction msk m rule: gather.induct)
  case (1 bs msk r m)
  then show ?case using gather_row_masked[of bs r] by (simp add: masked_def)
qed (simp_all add: masked_def)

lemma scatter_row_length [simp]: "length (fst (scatter_row bs v)) = length bs"
  by (induction bs arbitrary: v) (simp_all add: case_prod_unfold)

lemma scatter_row_rest:
  "length (filter id bs) \<le> length v \<Longrightarrow> snd (scatter_row bs v) = drop (length (filter id bs)) v"
proof (induction bs arbitrary: v)
  case Nil
  show ?case by simp
next
  case (Cons b bs)
  show ?case
  proof (cases b)
    case True
    with Cons.prems obtain x v' where v: "v = x # v'" by (cases v) auto
    with True Cons.prems Cons.IH[of v'] show ?thesis by (simp add: case_prod_unfold)
  next
    case False
    with Cons.prems Cons.IH[of v] show ?thesis by (simp add: case_prod_unfold)
  qed
qed

lemma gather_scatter_row:
  "length (filter id bs) \<le> length v \<Longrightarrow>
   gather_row bs (fst (scatter_row bs v)) = take (length (filter id bs)) v"
proof (induction bs arbitrary: v)
  case Nil
  show ?case by simp
next
  case (Cons b bs)
  show ?case
  proof (cases b)
    case True
    with Cons.prems obtain x v' where v: "v = x # v'" by (cases v) auto
    with True Cons.prems Cons.IH[of v'] show ?thesis by (simp add: case_prod_unfold)
  next
    case False
    with Cons.prems Cons.IH[of v] show ?thesis by (simp add: case_prod_unfold)
  qed
qed

lemma scatter_row_gather:
  "length bs = length r \<Longrightarrow>
   scatter_row bs (gather_row bs r @ rest) = (map2 (\<lambda>b x. if b then x else 0) bs r, rest)"
  by (induction bs r rule: list_induct2) simp_all

lemma count_true_Cons: "count_true (bs # msk) = length (filter id bs) + count_true msk"
  by (simp add: count_true_def)

lemma gather_length:
  "list_all2 (\<lambda>bs r. length bs = length r) msk m \<Longrightarrow> length (gather msk m) = count_true msk"
  by (induction msk m rule: list_all2_induct)
     (simp_all add: count_true_Cons gather_row_length, simp add: count_true_def)

lemma scatter_length [simp]: "length (scatter msk v) = length msk"
  by (induction msk arbitrary: v) (simp_all add: case_prod_unfold)

lemma scatter_rows:
  "list_all2 (\<lambda>bs r. length bs = length r) msk (scatter msk v)"
proof (induction msk arbitrary: v)
  case Nil
  show ?case by simp
next
  case (Cons bs msk)
  have "length (fst (scatter_row bs v)) = length bs" by simp
  then show ?case using Cons.IH by (simp add: case_prod_unfold)
qed

lemma gather_scatter:
  "count_true msk \<le> length v \<Longrightarrow> gather msk (scatter msk v) = take (count_true msk) v"
proof (induction msk arbitrary: v)
  case Nil
  show ?case by (simp add: count_true_def)
next
  case (Cons bs msk)
  let ?k = "length (filter id bs)"
  have k: "?k \<le> length v" using Cons.prems by (simp add: count_true_Cons)
  have rest: "snd (scatter_row bs v) = drop ?k v" using k by (rule scatter_row_rest)
  have row: "gather_row bs (fst (scatter_row bs v)) = take ?k v" using k by (rule gather_scatter_row)
  have "count_true msk \<le> length (drop ?k v)" using Cons.prems by (simp add: count_true_Cons)
  then have "gather msk (scatter msk (drop ?k v)) = take (count_true msk) (drop ?k v)"
    by (rule Cons.IH)
  with rest row show ?case
    by (simp add: count_true_Cons case_prod_unfold take_add)
qed

lemma scatter_gather:
  "list_all2 (\<lambda>bs r. length bs = length r) msk m \<Longrightarrow>
   scatter msk (gather msk m @ rest) = masked msk m"
  by (induction msk m arbitrary: rest rule: list_all2_induct)
     (simp_all add: masked_def scatter_row_gather)

lemma shapes_all2:
  "is_shape r c msk \<Longrightarrow> is_shape r c m \<Longrightarrow> list_all2 (\<lambda>bs r. length bs = length r) msk m"
  by (simp add: is_shape_nth list_all2_conv_all_nth)

lemma masked_shape: "is_shape r c msk \<Longrightarrow> is_shape r c m \<Longrightarrow> is_shape r c (masked msk m)"
  by (simp add: is_shape_nth masked_def)

lemma masked_nth:
  "is_shape r c msk \<Longrightarrow> is_shape r c m \<Longrightarrow> i < r \<Longrightarrow> j < c \<Longrightarrow>
   masked msk m ! i ! j = (if msk ! i ! j then m ! i ! j else 0)"
  by (simp add: is_shape_nth masked_def)

lemma scatter_shape: "is_shape r c msk \<Longrightarrow> is_shape r c (scatter msk v)"
  using scatter_rows[of msk v] by (simp add: is_shape_nth list_all2_conv_all_nth)

paragraph \<open>The mask\<close>

lemma norm_indices_mem:
  "norm_indices n idx = Inr js \<Longrightarrow> int i \<in> set idx \<Longrightarrow> i \<in> set js"
proof (induction idx arbitrary: js)
  case Nil
  then show ?case by simp
next
  case (Cons a idx)
  then show ?case by (auto split: if_splits sum.splits)
qed

lemma norm_indices_valid:
  "list_all (\<lambda>i. 0 \<le> i \<and> i < int n) idx \<Longrightarrow> norm_indices n idx = Inr (map nat idx)"
  by (induction idx) auto

lemma block_mask_entry:
  assumes "block_mask mc n nc na = Inr m"
  shows "is_shape n n m"
    and "i < n \<Longrightarrow> j < n \<Longrightarrow>
         m ! i ! j \<longleftrightarrow>
           (nc \<le> i \<and> i < nc + na \<and> j < nc) \<or> (nc + na \<le> i \<and> j < nc + na) \<or>
           (internal_rotation mc \<and> nc \<le> j \<and> j < i \<and> i < nc + na)"
proof -
  let ?m0 = "replicate n (replicate n False)"
  let ?m1 = "assign_where (\<lambda>i j. nc \<le> i \<and> i < nc + na \<and> j < nc) True ?m0"
  let ?m2 = "assign_where (\<lambda>i j. nc + na \<le> i \<and> j < nc + na) True ?m1"
  let ?m3 = "assign_where (\<lambda>i j. nc \<le> j \<and> j < i \<and> i < nc + na) True ?m2"
  have s0: "is_shape n n ?m0" by (rule zeros_shape)
  have s1: "is_shape n n ?m1" using s0 by (rule assign_where_shape)
  have s2: "is_shape n n ?m2" using s1 by (rule assign_where_shape)
  have s3: "is_shape n n ?m3" using s2 by (rule assign_where_shape)
  have m: "m = (if internal_rotation mc then ?m3 else ?m2)"
    using assms by (simp add: block_mask_def Let_def split: if_splits)
  show "is_shape n n m" using m s2 s3 by simp
  show "m ! i ! j \<longleftrightarrow>
           (nc \<le> i \<and> i < nc + na \<and> j < nc) \<or> (nc + na \<le> i \<and> j < nc + na) \<or>
           (internal_rotation mc \<and> nc \<le> j \<and> j < i \<and> i < nc + na)"
    if "i < n" "j < n"
    using that m
    by (auto simp: assign_where_nth[OF s2] assign_where_nth[OF s1] assign_where_nth[OF s0])
qed

lemma block_mask_valid: "nc + na \<le> n \<Longrightarrow> \<exists>m. block_mask mc n nc na = Inr m"
  by (simp add: block_mask_def Let_def)

lemma uvi_entry:
  assumes "uniq_var_indices mc n nc na fz = Inr msk"
  shows "is_shape n n msk"
    and "i < n \<Longrightarrow> j < n \<Longrightarrow> msk ! i ! j \<Longrightarrow>
           j < i \<and>
           ((nc \<le> i \<and> i < nc + na \<and> j < nc) \<or> (nc + na \<le> i \<and> j < nc + na) \<or>
            (internal_rotation mc \<and> nc \<le> j \<and> i < nc + na)) \<and>
           \<not> frozen_orbital fz i \<and> \<not> frozen_orbital fz j"
proof -
  from assms obtain m where bm: "block_mask mc n nc na = Inr m"
    by (auto simp: uniq_var_indices_def split: sum.splits)
  note sh = block_mask_entry(1)[OF bm]
  note en = block_mask_entry(2)[OF bm]
  show "is_shape n n msk"
    using assms bm sh
    by (auto simp: uniq_var_indices_def assign_where_shape split: frozen_spec.splits sum.splits if_splits)
  show "j < i \<and>
           ((nc \<le> i \<and> i < nc + na \<and> j < nc) \<or> (nc + na \<le> i \<and> j < nc + na) \<or>
            (internal_rotation mc \<and> nc \<le> j \<and> i < nc + na)) \<and>
           \<not> frozen_orbital fz i \<and> \<not> frozen_orbital fz j"
    if ij: "i < n" "j < n" and t: "msk ! i ! j"
  proof (cases fz)
    case FrozenNone
    then have "msk = m" using assms bm by (simp add: uniq_var_indices_def)
    with t en[OF ij] FrozenNone show ?thesis by (auto simp: frozen_orbital_def)
  next
    case (FrozenCount k)
    then have "msk = assign_where (\<lambda>i j. i < slice_stop k n \<or> j < slice_stop k n) False m"
      using assms bm by (simp add: uniq_var_indices_def)
    with t ij have "m ! i ! j" "\<not> i < slice_stop k n" "\<not> j < slice_stop k n"
      by (auto simp: assign_where_nth[OF sh] split: if_splits)
    with en[OF ij] ij FrozenCount show ?thesis
      by (auto simp: frozen_orbital_def slice_stop_def split: if_splits)
  next
    case (FrozenList idx)
    then obtain js where js: "norm_indices n idx = Inr js"
      and "msk = assign_where (\<lambda>i j. i \<in> set js \<or> j \<in> set js) False m"
      using assms bm by (auto simp: uniq_var_indices_def split: sum.splits if_splits)
    with t ij have "m ! i ! j" "i \<notin> set js" "j \<notin> set js"
      by (auto simp: assign_where_nth[OF sh] split: if_splits)
    with en[OF ij] FrozenList norm_indices_mem[OF js] show ?thesis
      by (auto simp: frozen_orbital_def)
  qed
qed

lemma uvi_valid:
  assumes "valid_partition mc"
  shows "\<exists>msk. uniq_var_indices mc (ncols (mo_coeff mc)) (ncore mc) (ncas mc) (frozen mc) = Inr msk \<and>
           (\<forall>i < ncols (mo_coeff mc). \<forall>j < ncols (mo_coeff mc).
              j < i \<and> \<not> redundant_pair mc i j \<and>
              \<not> frozen_orbital (frozen mc) i \<and> \<not> frozen_orbital (frozen mc) j \<longrightarrow> msk ! i ! j)"
proof -
  let ?n = "ncols (mo_coeff mc)"
  from assms have le: "ncore mc + ncas mc \<le> ?n" by (simp add: valid_partition_def)
  then obtain m where bm: "block_mask mc ?n (ncore mc) (ncas mc) = Inr m"
    using block_mask_valid by blast
  note sh = block_mask_entry(1)[OF bm]
  note en = block_mask_entry(2)[OF bm]
  have base: "m ! i ! j" if "i < ?n" "j < ?n" "j < i" "\<not> redundant_pair mc i j" for i j
    using that en[OF that(1,2)] by (auto simp: redundant_pair_def split: if_splits)
  show ?thesis
  proof (cases "frozen mc")
    case FrozenNone
    then show ?thesis using bm base by (auto simp: uniq_var_indices_def)
  next
    case (FrozenCount k)
    moreover from this assms have "0 \<le> k" by (simp add: valid_partition_def)
    ultimately show ?thesis using bm base
      by (auto simp: uniq_var_indices_def assign_where_nth[OF sh] frozen_orbital_def slice_stop_def)
  next
    case (FrozenList idx)
    moreover from this assms have v: "list_all (\<lambda>i. 0 \<le> i \<and> i < int ?n) idx"
      by (simp add: valid_partition_def)
    moreover from FrozenList assms have "idx \<noteq> []"
      by (simp add: valid_partition_def)
    moreover have "int i \<in> set idx" if "i \<in> set (map nat idx)" for i
      using that v by (auto simp: list_all_iff)
    ultimately show ?thesis using bm base norm_indices_valid[OF v]
      by (auto simp: uniq_var_indices_def assign_where_nth[OF sh] frozen_orbital_def)
  qed
qed

lemma zero_where_nth:
  "zero_where n P m \<longleftrightarrow> (\<forall>i<n. \<forall>j<n. P i j \<longrightarrow> m ! i ! j = 0)"
  by (simp add: zero_where_def list_all_iff Ball_def) blast

lemma antisymmetric_nth:
  "antisymmetric n m \<longleftrightarrow> is_shape n n m \<and> (\<forall>i<n. \<forall>j<n. m ! i ! j = - m ! j ! i)"
  by (simp add: antisymmetric_def list_all_iff Ball_def)

lemma scatter_is_masked:
  assumes "count_true msk \<le> length v"
  shows "scatter msk v = masked msk (scatter msk v)"
proof -
  have "scatter msk v = scatter msk (take (count_true msk) v @ drop (count_true msk) v)"
    by simp
  also have "\<dots> = scatter msk (gather msk (scatter msk v) @ drop (count_true msk) v)"
    using gather_scatter[OF assms] by simp
  also have "\<dots> = masked msk (scatter msk v)"
    using scatter_rows by (rule scatter_gather)
  finally show ?thesis .
qed

lemma scatter_zero:
  assumes "count_true msk \<le> length v" "is_shape r c msk" "i < r" "j < c" "\<not> msk ! i ! j"
  shows "scatter msk v ! i ! j = 0"
proof -
  have "masked msk (scatter msk v) ! i ! j = 0"
    using assms(5) masked_nth[OF assms(2) scatter_shape[OF assms(2)] assms(3,4), of v] by simp
  then show ?thesis
    by (subst scatter_is_masked[OF assms(1)])
qed

lemma mask_values_Inr:
  assumes "mask_values n v = Inr vals"
  shows "length vals = n \<and> (length v = n \<longrightarrow> vals = v)"
proof (cases "length v = n")
  case True
  with assms show ?thesis by (simp add: mask_values_def)
next
  case False
  with assms obtain x where "v = [x]" "vals = replicate n x"
    by (cases v; cases "tl v") (simp_all add: mask_values_def)
  with False show ?thesis by simp
qed

lemma unpack_Inr:
  assumes "unpack_uniq_var mc v = Inr a"
  shows "\<exists>msk vals.
    uniq_var_indices mc (ncols (mo_coeff mc)) (ncore mc) (ncas mc) (frozen mc) = Inr msk \<and>
    mask_values (count_true msk) v = Inr vals \<and>
    a = tabulate2 (ncols (mo_coeff mc)) (ncols (mo_coeff mc))
           (\<lambda>i j. scatter msk vals ! i ! j - scatter msk vals ! j ! i)"
proof (cases "uniq_var_indices mc (ncols (mo_coeff mc)) (ncore mc) (ncas mc) (frozen mc)")
  case (Inl e)
  with assms show ?thesis by (simp add: unpack_uniq_var_def)
next
  case (Inr msk)
  show ?thesis
  proof (cases "mask_values (count_true msk) v")
    case (Inl e)
    with assms Inr show ?thesis by (simp add: unpack_uniq_var_def)
  next
    case vals: (Inr vals)
    with assms Inr show ?thesis by (simp add: unpack_uniq_var_def Let_def)
  qed
qed

lemma unpack_entry:
  assumes u: "unpack_uniq_var mc v = Inr a"
    and i: "i < ncols (mo_coeff mc)" and j: "j < ncols (mo_coeff mc)"
    and z: "\<And>msk. uniq_var_indices mc (ncols (mo_coeff mc)) (ncore mc) (ncas mc) (frozen mc) = Inr msk
              \<Longrightarrow> \<not> msk ! i ! j \<and> \<not> msk ! j ! i"
  shows "a ! i ! j = 0"
proof -
  let ?n = "ncols (mo_coeff mc)"
  from unpack_Inr[OF u] obtain msk vals where
    m: "uniq_var_indices mc ?n (ncore mc) (ncas mc) (frozen mc) = Inr msk"
    and mv: "mask_values (count_true msk) v = Inr vals"
    and a: "a = tabulate2 ?n ?n (\<lambda>i j. scatter msk vals ! i ! j - scatter msk vals ! j ! i)"
    by blast
  have l: "count_true msk \<le> length vals" using mask_values_Inr[OF mv] by simp
  have sh: "is_shape ?n ?n msk" using m by (rule uvi_entry(1))
  have nz: "\<not> msk ! i ! j" "\<not> msk ! j ! i" using z[OF m] by simp_all
  have "scatter msk vals ! i ! j = 0" using l sh i j nz(1) by (rule scatter_zero)
  moreover have "scatter msk vals ! j ! i = 0" using l sh j i nz(2) by (rule scatter_zero)
  ultimately have "scatter msk vals ! i ! j - scatter msk vals ! j ! i = 0" by simp
  moreover have "a ! i ! j = scatter msk vals ! i ! j - scatter msk vals ! j ! i"
    unfolding a using i j by (rule tabulate2_nth)
  ultimately show ?thesis by (simp only:)
qed

lemma gather_cong:
  fixes a b :: mat
  assumes "is_shape r c msk" "is_shape r c a" "is_shape r c b"
    and "\<And>i j. i < r \<Longrightarrow> j < c \<Longrightarrow> msk ! i ! j \<Longrightarrow> a ! i ! j = b ! i ! j"
  shows "gather msk a = gather msk b"
proof -
  have "masked msk a = masked msk b"
  proof (rule mat_eqI)
    show "is_shape r c (masked msk a)" using assms(1,2) by (rule masked_shape)
    show "is_shape r c (masked msk b)" using assms(1,3) by (rule masked_shape)
    fix i j assume ij: "i < r" "j < c"
    show "masked msk a ! i ! j = masked msk b ! i ! j"
      using assms(4)[OF ij]
      by (simp add: masked_nth[OF assms(1,2) ij] masked_nth[OF assms(1,3) ij])
  qed
  then show ?thesis using gather_masked[of msk a] gather_masked[of msk b] by simp
qed

lemma gather_count:
  fixes m :: mat
  shows "is_shape r c msk \<Longrightarrow> is_shape r c m \<Longrightarrow> length (gather msk m) = count_true msk"
  using gather_length[of msk m] shapes_all2[of r c msk m] by simp

lemma redundant_pair_sym: "redundant_pair mc i j = redundant_pair mc j i"
  by (auto simp: redundant_pair_def)

lemma block_not_redundant:
  assumes "j < i"
    and "(ncore mc \<le> i \<and> i < ncore mc + ncas mc \<and> j < ncore mc) \<or>
         (ncore mc + ncas mc \<le> i \<and> j < ncore mc + ncas mc) \<or>
         (internal_rotation mc \<and> ncore mc \<le> j \<and> i < ncore mc + ncas mc)"
  shows "\<not> redundant_pair mc i j"
  using assms by (auto simp: redundant_pair_def)

lemma uvi_mask_facts:
  assumes m: "uniq_var_indices mc (ncols (mo_coeff mc)) (ncore mc) (ncas mc) (frozen mc) = Inr msk"
    and i: "i < ncols (mo_coeff mc)" and j: "j < ncols (mo_coeff mc)" and t: "msk ! i ! j"
  shows "j < i" and "\<not> redundant_pair mc i j"
    and "\<not> frozen_orbital (frozen mc) i" and "\<not> frozen_orbital (frozen mc) j"
proof -
  note e = uvi_entry(2)[OF m i j t]
  show "j < i" using e by simp
  show "\<not> redundant_pair mc i j" using e by (intro block_not_redundant) simp_all
  show "\<not> frozen_orbital (frozen mc) i" using e by simp
  show "\<not> frozen_orbital (frozen mc) j" using e by simp
qed

lemma unpack_value:
  assumes m: "uniq_var_indices mc (ncols (mo_coeff mc)) (ncore mc) (ncas mc) (frozen mc) = Inr msk"
    and l: "length v = count_true msk"
  shows "unpack_uniq_var mc v =
           Inr (tabulate2 (ncols (mo_coeff mc)) (ncols (mo_coeff mc))
                  (\<lambda>i j. scatter msk v ! i ! j - scatter msk v ! j ! i))"
  using m l by (simp add: unpack_uniq_var_def mask_values_def Let_def)

lemma unpack_antisymmetric:
  assumes "unpack_uniq_var mc v = Inr a"
  shows "antisymmetric (ncols (mo_coeff mc)) a"
proof -
  from unpack_Inr[OF assms] obtain msk vals where
    a: "a = tabulate2 (ncols (mo_coeff mc)) (ncols (mo_coeff mc))
           (\<lambda>i j. scatter msk vals ! i ! j - scatter msk vals ! j ! i)"
    by blast
  show ?thesis unfolding a by (simp add: antisymmetric_nth is_shape_tabulate2)
qed

lemma unpack_zero_where:
  assumes u: "unpack_uniq_var mc v = Inr a"
    and P: "\<And>i j. P i j \<Longrightarrow> redundant_pair mc i j \<or> frozen_orbital (frozen mc) i \<or> frozen_orbital (frozen mc) j"
    and sym: "\<And>i j. P i j \<Longrightarrow> P j i"
  shows "zero_where (ncols (mo_coeff mc)) P a"
  unfolding zero_where_nth
proof (intro allI impI)
  fix i j assume i: "i < ncols (mo_coeff mc)" and j: "j < ncols (mo_coeff mc)" and p: "P i j"
  show "a ! i ! j = 0"
  proof (rule unpack_entry[OF u i j])
    fix msk
    assume m: "uniq_var_indices mc (ncols (mo_coeff mc)) (ncore mc) (ncas mc) (frozen mc) = Inr msk"
    have "\<not> msk ! i ! j"
      using uvi_mask_facts(2,3,4)[OF m i j] P[OF p] by blast
    moreover have "\<not> msk ! j ! i"
      using uvi_mask_facts(2,3,4)[OF m j i] P[OF sym[OF p]] by blast
    ultimately show "\<not> msk ! i ! j \<and> \<not> msk ! j ! i" by simp
  qed
qed

lemma unpack_redundant_blocks_zero:
  assumes "unpack_uniq_var mc v = Inr a"
  shows "redundant_blocks_zero mc (ncols (mo_coeff mc)) a"
  unfolding redundant_blocks_zero_def
  using assms by (rule unpack_zero_where) (simp_all add: redundant_pair_sym)

lemma unpack_frozen_zero:
  assumes "unpack_uniq_var mc v = Inr a"
  shows "frozen_zero mc (ncols (mo_coeff mc)) a"
  unfolding frozen_zero_def
  using assms by (rule unpack_zero_where) auto

lemma pack_unpack:
  assumes m: "uniq_var_indices mc (ncols (mo_coeff mc)) (ncore mc) (ncas mc) (frozen mc) = Inr msk"
    and l: "length v = count_true msk"
    and u: "unpack_uniq_var mc v = Inr a"
  shows "pack_uniq_var mc a = Inr v"
proof -
  let ?n = "ncols (mo_coeff mc)"
  let ?s = "scatter msk v"
  have a: "a = tabulate2 ?n ?n (\<lambda>i j. ?s ! i ! j - ?s ! j ! i)"
    using unpack_value[OF m l] u by simp
  have sh: "is_shape ?n ?n msk" using m by (rule uvi_entry(1))
  have sa: "is_shape ?n ?n a" unfolding a by (rule is_shape_tabulate2)
  have ss: "is_shape ?n ?n ?s" using sh by (rule scatter_shape)
  have le: "count_true msk \<le> length v" using l by simp
  have "gather msk a = gather msk ?s"
  proof (rule gather_cong[OF sh sa ss])
    fix i j assume i: "i < ?n" and j: "j < ?n" and t: "msk ! i ! j"
    have "j < i" using m i j t by (rule uvi_mask_facts(1))
    then have "\<not> msk ! j ! i" using uvi_mask_facts(1)[OF m j i] by auto
    then have "?s ! j ! i = 0" using scatter_zero[OF le sh j i] by simp
    then show "a ! i ! j = ?s ! i ! j" unfolding a using i j by simp
  qed
  also have "\<dots> = v" using gather_scatter[OF le] l by simp
  finally show ?thesis using m sa by (simp add: pack_uniq_var_def Let_def)
qed

lemma unpack_pack:
  assumes vp: "valid_partition mc"
    and m: "uniq_var_indices mc (ncols (mo_coeff mc)) (ncore mc) (ncas mc) (frozen mc) = Inr msk"
    and anti: "antisymmetric (ncols (mo_coeff mc)) M"
    and red: "redundant_blocks_zero mc (ncols (mo_coeff mc)) M"
    and fz: "frozen_zero mc (ncols (mo_coeff mc)) M"
  shows "pack_uniq_var mc M = Inr (gather msk M)"
    and "length (gather msk M) = count_true msk"
    and "unpack_uniq_var mc (gather msk M) = Inr M"
proof -
  let ?n = "ncols (mo_coeff mc)"
  have sh: "is_shape ?n ?n msk" using m by (rule uvi_entry(1))
  have sM: "is_shape ?n ?n M" using anti unfolding antisymmetric_nth by blast
  have neg: "M ! i ! j = - M ! j ! i" if "i < ?n" "j < ?n" for i j
    using anti that unfolding antisymmetric_nth by blast
  show p: "pack_uniq_var mc M = Inr (gather msk M)"
    using m sM by (simp add: pack_uniq_var_def Let_def)
  show l: "length (gather msk M) = count_true msk"
    using sh sM by (rule gather_count)
  from uvi_valid[OF vp] obtain msk' where
    m': "uniq_var_indices mc ?n (ncore mc) (ncas mc) (frozen mc) = Inr msk'"
    and c': "\<forall>i < ?n. \<forall>j < ?n.
              j < i \<and> \<not> redundant_pair mc i j \<and>
              \<not> frozen_orbital (frozen mc) i \<and> \<not> frozen_orbital (frozen mc) j \<longrightarrow> msk' ! i ! j"
    by blast
  from m m' have e: "msk' = msk" by simp
  have r: "\<forall>i < ?n. \<forall>j < ?n. redundant_pair mc i j \<longrightarrow> M ! i ! j = 0"
    using red by (simp add: redundant_blocks_zero_def zero_where_nth)
  have f: "\<forall>i < ?n. \<forall>j < ?n.
             frozen_orbital (frozen mc) i \<or> frozen_orbital (frozen mc) j \<longrightarrow> M ! i ! j = 0"
    using fz by (simp add: frozen_zero_def zero_where_nth)
  have zero: "M ! i ! j = 0" if "i < ?n" "j < ?n" "j < i" "\<not> msk ! i ! j" for i j
  proof -
    have "redundant_pair mc i j \<or> frozen_orbital (frozen mc) i \<or> frozen_orbital (frozen mc) j"
      using c' that unfolding e by blast
    then show ?thesis using r f that(1,2) by blast
  qed
  have diag: "M ! i ! i = 0" if "i < ?n" for i
    using neg[OF that that] by linarith
  have sc: "scatter msk (gather msk M) = masked msk M"
    using scatter_gather[OF shapes_all2[OF sh sM], of "[]"] by simp
  have ent: "masked msk M ! i ! j - masked msk M ! j ! i = M ! i ! j" if i: "i < ?n" and j: "j < ?n" for i j
  proof -
    have mij: "masked msk M ! i ! j = (if msk ! i ! j then M ! i ! j else 0)"
      using sh sM i j by (rule masked_nth)
    have mji: "masked msk M ! j ! i = (if msk ! j ! i then M ! j ! i else 0)"
      using sh sM j i by (rule masked_nth)
    consider "i = j" | "j < i" | "i < j" by linarith
    then show ?thesis
    proof cases
      case 1
      have "\<not> msk ! i ! i" using uvi_mask_facts(1)[OF m i i] by blast
      then have "masked msk M ! i ! i = 0" using masked_nth[OF sh sM i i] by simp
      then show ?thesis unfolding 1[symmetric] using diag[OF i] by simp
    next
      case 2
      have nji: "\<not> msk ! j ! i" using uvi_mask_facts(1)[OF m j i] 2 by auto
      have z: "masked msk M ! j ! i = 0" unfolding mji using nji by simp
      show ?thesis
      proof (cases "msk ! i ! j")
        case True
        then show ?thesis unfolding mij z by simp
      next
        case False
        then show ?thesis unfolding mij z using zero[OF i j 2 False] by simp
      qed
    next
      case 3
      have nij: "\<not> msk ! i ! j" using uvi_mask_facts(1)[OF m i j] 3 by auto
      have z: "masked msk M ! i ! j = 0" unfolding mij using nij by simp
      show ?thesis
      proof (cases "msk ! j ! i")
        case True
        have "masked msk M ! j ! i = M ! j ! i" unfolding mji using True by simp
        then show ?thesis unfolding z using neg[OF i j] by linarith
      next
        case False
        have "masked msk M ! j ! i = 0" unfolding mji using False by simp
        moreover have "M ! j ! i = 0" using j i 3 False by (rule zero)
        ultimately show ?thesis unfolding z using neg[OF i j] by linarith
      qed
    qed
  qed
  have "tabulate2 ?n ?n (\<lambda>i j. masked msk M ! i ! j - masked msk M ! j ! i) = M"
  proof (rule mat_eqI[OF is_shape_tabulate2 sM])
    fix i j assume ij: "i < ?n" "j < ?n"
    have "tabulate2 ?n ?n (\<lambda>i j. masked msk M ! i ! j - masked msk M ! j ! i) ! i ! j =
          masked msk M ! i ! j - masked msk M ! j ! i"
      using ij by (rule tabulate2_nth)
    then show "tabulate2 ?n ?n (\<lambda>i j. masked msk M ! i ! j - masked msk M ! j ! i) ! i ! j = M ! i ! j"
      using ent[OF ij] by (simp only:)
  qed
  then show "unpack_uniq_var mc (gather msk M) = Inr M"
    using unpack_value[OF m l] sc by simp
qed

lemmas example_defs =
  casscf_init_def uniq_var_indices_def block_mask_def assign_where_def ncols_def
  slice_stop_def is_shape_def antisymmetric_def zero_where_def redundant_blocks_zero_def
  redundant_pair_def pack_uniq_var_def unpack_uniq_var_def mask_values_def count_true_def
  tabulate2_def valid_partition_def frozen_zero_def frozen_orbital_def Let_def

text \<open>
  Claim C2, as stated: \<open>pack_uniq_var\<close> and \<open>unpack_uniq_var\<close> are a bijection
  between the vectors over the non-redundant indices and the antisymmetric arrays
  whose redundant blocks (core-core, active-active, virtual-virtual) are zero, so
  \<open>unpack_uniq_var(pack_uniq_var(M)) == M\<close> for every such \<open>M\<close>. It fails when
  an orbital is frozen: with two orbitals, one core and one active, and
  \<open>frozen = 1\<close>, the mask is all \<open>False\<close>; the antisymmetric array
  \<open>[[0, -1], [1, 0]]\<close> has its entries in the active-core block, is packed to the
  empty vector and unpacked to zeros.
\<close>

theorem pack_unpack_not_bijective_counterexample:
  "valid_partition frozen_core_example \<and>
   antisymmetric 2 [[0, - 1], [1, 0]] \<and>
   redundant_blocks_zero frozen_core_example 2 [[0, - 1], [1, 0]] \<and>
   pack_uniq_var frozen_core_example [[0, - 1], [1, 0]] = Inr [] \<and>
   unpack_uniq_var frozen_core_example [] = Inr [[0, 0], [0, 0]]"
  by (simp add: frozen_core_example_def example_defs eval_nat_numeral)

text \<open>
  Claim C2, amended: for every valid partition, every vector \<open>v\<close> with one entry
  for each position of the mask is unpacked without an exception to an
  antisymmetric \<open>nmo\<close> by \<open>nmo\<close> array whose redundant blocks and whose rows and
  columns of frozen orbitals are zero, and packing that array gives \<open>v\<close> back;
  every antisymmetric array whose redundant blocks and whose rows and columns of
  frozen orbitals are zero is packed to such a vector, and unpacking it gives the
  array back. So the pair is a bijection between these vectors and the antisymmetric
  arrays that vanish on the redundant blocks and on the frozen orbitals.
\<close>

theorem pack_unpack_bijection:
  assumes "valid_partition mc"
  shows "\<exists>msk. uniq_var_indices mc (ncols (mo_coeff mc)) (ncore mc) (ncas mc) (frozen mc) = Inr msk \<and>
           (\<forall>v. length v = count_true msk \<longrightarrow>
              (\<exists>a. unpack_uniq_var mc v = Inr a \<and>
                   antisymmetric (ncols (mo_coeff mc)) a \<and>
                   redundant_blocks_zero mc (ncols (mo_coeff mc)) a \<and>
                   frozen_zero mc (ncols (mo_coeff mc)) a \<and>
                   pack_uniq_var mc a = Inr v)) \<and>
           (\<forall>M. antisymmetric (ncols (mo_coeff mc)) M \<and>
                redundant_blocks_zero mc (ncols (mo_coeff mc)) M \<and>
                frozen_zero mc (ncols (mo_coeff mc)) M \<longrightarrow>
              (\<exists>v. pack_uniq_var mc M = Inr v \<and> length v = count_true msk \<and>
                   unpack_uniq_var mc v = Inr M))"
proof -
  let ?n = "ncols (mo_coeff mc)"
  from uvi_valid[OF assms] obtain msk where
    m: "uniq_var_indices mc ?n (ncore mc) (ncas mc) (frozen mc) = Inr msk"
    by blast
  have A: "\<exists>a. unpack_uniq_var mc v = Inr a \<and> antisymmetric ?n a \<and>
             redundant_blocks_zero mc ?n a \<and> frozen_zero mc ?n a \<and> pack_uniq_var mc a = Inr v"
    if l: "length v = count_true msk" for v
  proof -
    from unpack_value[OF m l] obtain a where u: "unpack_uniq_var mc v = Inr a" by blast
    show ?thesis
      using u unpack_antisymmetric[OF u] unpack_redundant_blocks_zero[OF u]
        unpack_frozen_zero[OF u] pack_unpack[OF m l u]
      by blast
  qed
  have B: "\<exists>v. pack_uniq_var mc M = Inr v \<and> length v = count_true msk \<and> unpack_uniq_var mc v = Inr M"
    if "antisymmetric ?n M \<and> redundant_blocks_zero mc ?n M \<and> frozen_zero mc ?n M" for M
    using unpack_pack[OF assms m, of M] that by blast
  from m A B show ?thesis by blast
qed

theorem pack_unpack_bijection_witness:
  "valid_partition three_orbital_example \<and>
   uniq_var_indices three_orbital_example 3 1 1 FrozenNone =
     Inr [[False, False, False], [True, False, False], [True, True, False]] \<and>
   unpack_uniq_var three_orbital_example [1, 2, 3] = Inr [[0, - 1, - 2], [1, 0, - 3], [2, 3, 0]] \<and>
   antisymmetric 3 [[0, - 1, - 2], [1, 0, - 3], [2, 3, 0]] \<and>
   redundant_blocks_zero three_orbital_example 3 [[0, - 1, - 2], [1, 0, - 3], [2, 3, 0]] \<and>
   frozen_zero three_orbital_example 3 [[0, - 1, - 2], [1, 0, - 3], [2, 3, 0]] \<and>
   pack_uniq_var three_orbital_example [[0, - 1, - 2], [1, 0, - 3], [2, 3, 0]] = Inr [1, 2, 3]"
  using pack_unpack_bijection [of three_orbital_example]
  by (simp add: three_orbital_example_def example_defs eval_nat_numeral)

subsection \<open>Claim C5\<close>

lemma einsum_kij_kji_single:
  "einsum_kij_kji [[[x]]] [[[y]]] = Inr (x * y)"
  by (simp add: einsum_kij_kji_def shape3_def dims3_def bdim_def bidx_def)

text \<open>
  Claim C5: \<open>energy_elec\<close> raises whenever the magnitude of the imaginary part of the
  Coulomb energy exceeds \<open>1e-10\<close>, for negative imaginary parts as for positive ones.
  The source takes \<open>abs\<close> of the comparison instead of the imaginary part, so a
  Coulomb energy of \<open>-i\<close> (one k-point, density \<open>1\<close>, potential \<open>-2i\<close>) is
  accepted and its real part returned.
\<close>

theorem energy_elec_negative_imag_accepted:
  "energy_elec [[[1]]] [[[0]]] [[[Complex 0 (- 2)]]] = Inr (0, 0)
   \<and> \<bar>Im (complex_of_real (1 / real (length [[[1 :: complex]]])) * (1 * Complex 0 (- 2)) * complex_of_real 0.5)\<bar> > 1 / 10 ^ 10"
  by (simp add: energy_elec_def einsum_kij_kji_single abs_bool_def)

subsection \<open>Claim C7\<close>

text \<open>
  Claim C7, as stated: with \<open>norm_gorb\<close> in \<open>envs\<close>, the tolerance handed to the CI
  solver is never looser than the macro \<open>conv_tol\<close>. It fails: with the default
  \<open>conv_tol = 1e-7\<close> and \<open>norm_gorb = 1\<close> the \<open>approx_kernel\<close> is called with
  the tolerance \<open>0.1\<close>, which is looser than \<open>conv_tol\<close>.
\<close>

theorem solve_approx_ci_tol_looser_counterexample:
  "solve_approx_ci (casscf_init [] 4000 True False 0 (0, 0) 0 FrozenNone) echo_solver
     no_eigh 0 [] [] [1] 0 0 [''norm_gorb'' \<mapsto> 1]
   = Inr ([1 / 10], None)
   \<and> \<not> (1 / 10 \<le> conv_tol (casscf_init [] 4000 True False 0 (0, 0) 0 FrozenNone))"
  by (simp add: solve_approx_ci_def ci_tol_def casscf_init_def echo_solver_def)

text \<open>
  Claim C7, amended: with \<open>norm_gorb\<close> in \<open>envs\<close>, the tolerance is
  \<open>max(conv_tol, 0.1 * norm_gorb^2)\<close>; it is never tighter (smaller) than
  \<open>conv_tol\<close> and equals \<open>0.1 * norm_gorb^2\<close> whenever that is at least
  \<open>conv_tol\<close>. Every call of a CI back end gets this tolerance: \<open>approx_kernel\<close>
  when the solver has one (the gradient returned is then \<open>None\<close>), \<open>kernel\<close>
  with \<open>max_cycle = ci_response_space\<close> when the solver lacks \<open>contract_2e\<close> or
  \<open>absorb_h1e\<close> (gradient \<open>None\<close>), and \<open>kernel\<close> on the full-response path
  (\<open>ci_response_space > 7\<close>, gradient \<open>hc - (e_ci - ecore) * ci0\<close>). The
  subspace path calls no back end.
\<close>

theorem solve_approx_ci_tol:
  assumes "envs ''norm_gorb'' = Some norm_gorb"
  shows "ci_tol mc envs = Some (max (conv_tol mc) (norm_gorb\<^sup>2 * 0.1))
       \<and> conv_tol mc \<le> max (conv_tol mc) (norm_gorb\<^sup>2 * 0.1)
       \<and> (conv_tol mc \<le> norm_gorb\<^sup>2 * 0.1 \<longrightarrow>
            max (conv_tol mc) (norm_gorb\<^sup>2 * 0.1) = 0.1 * norm_gorb\<^sup>2)
       \<and> (\<forall>fn. approx_kernel fs = Some fn \<longrightarrow>
            solve_approx_ci mc fs safe_eigh current_memory h1 h2 ci0 ecore e_ci envs =
              Inr (snd (fn h1 h2 (ncas mc) (nelecas mc) ci0
                          (Some (max (conv_tol mc) (norm_gorb\<^sup>2 * 0.1))) (max_memory mc)), None))
       \<and> (approx_kernel fs = None \<and> (contract_2e fs = None \<or> absorb_h1e fs = None) \<longrightarrow>
            solve_approx_ci mc fs safe_eigh current_memory h1 h2 ci0 ecore e_ci envs =
              Inr (snd (fci_kernel fs h1 h2 (ncas mc) (nelecas mc) ci0
                          (Some (max (conv_tol mc) (norm_gorb\<^sup>2 * 0.1))) (max_memory mc)
                          (Some (ci_response_space mc))), None))
       \<and> (\<forall>contract absorb g.
            approx_kernel fs = None \<and> contract_2e fs = Some contract \<and>
            absorb_h1e fs = Some absorb \<and>
            np_binop (-) (contract (absorb h1 h2 (ncas mc) (nelecas mc) 0.5) ci0 (ncas mc) (nelecas mc))
              (smul (e_ci - ecore) ci0) = Inr g \<longrightarrow>
            (7 < ci_response_space mc \<longrightarrow>
               solve_approx_ci mc fs safe_eigh current_memory h1 h2 ci0 ecore e_ci envs =
                 Inr (snd (fci_kernel fs h1 h2 (ncas mc) (nelecas mc) ci0
                             (Some (max (conv_tol mc) (norm_gorb\<^sup>2 * 0.1)))
                             (max 400 (max_memory mc - current_memory)) None), Some g)) \<and>
            (ci_response_space mc \<le> 7 \<longrightarrow>
               solve_approx_ci mc fs safe_eigh current_memory h1 h2 ci0 ecore e_ci envs =
                 (case subspace_ci mc safe_eigh
                         (\<lambda>x. contract (absorb h1 h2 (ncas mc) (nelecas mc) 0.5) x (ncas mc) (nelecas mc))
                         ci0
                         (contract (absorb h1 h2 (ncas mc) (nelecas mc) 0.5) ci0 (ncas mc) (nelecas mc))
                         e_ci of
                    Inl err \<Rightarrow> Inl err
                  | Inr ci1 \<Rightarrow> Inr (ci1, Some g))))"
proof -
  let ?tol = "Some (max (conv_tol mc) (norm_gorb\<^sup>2 * 0.1))"
  let ?run = "solve_approx_ci mc fs safe_eigh current_memory h1 h2 ci0 ecore e_ci envs"
  have t: "ci_tol mc envs = ?tol" using assms by (simp add: ci_tol_def)
  have a: "?run = Inr (snd (fn h1 h2 (ncas mc) (nelecas mc) ci0 ?tol (max_memory mc)), None)"
    if "approx_kernel fs = Some fn" for fn
    using that by (simp add: solve_approx_ci_def t)
  have k: "?run = Inr (snd (fci_kernel fs h1 h2 (ncas mc) (nelecas mc) ci0 ?tol (max_memory mc)
                              (Some (ci_response_space mc))), None)"
    if "approx_kernel fs = None \<and> (contract_2e fs = None \<or> absorb_h1e fs = None)"
    using that by (auto simp: solve_approx_ci_def t Let_def split: option.splits)
  have r: "(7 < ci_response_space mc \<longrightarrow>
             ?run = Inr (snd (fci_kernel fs h1 h2 (ncas mc) (nelecas mc) ci0 ?tol
                                (max 400 (max_memory mc - current_memory)) None), Some g)) \<and>
           (ci_response_space mc \<le> 7 \<longrightarrow>
             ?run = (case subspace_ci mc safe_eigh
                          (\<lambda>x. contract (absorb h1 h2 (ncas mc) (nelecas mc) 0.5) x (ncas mc) (nelecas mc))
                          ci0
                          (contract (absorb h1 h2 (ncas mc) (nelecas mc) 0.5) ci0 (ncas mc) (nelecas mc))
                          e_ci of
                       Inl err \<Rightarrow> Inl err
                     | Inr ci1 \<Rightarrow> Inr (ci1, Some g)))"
    if "approx_kernel fs = None \<and> contract_2e fs = Some contract \<and>
        absorb_h1e fs = Some absorb \<and>
        np_binop (-) (contract (absorb h1 h2 (ncas mc) (nelecas mc) 0.5) ci0 (ncas mc) (nelecas mc))
          (smul (e_ci - ecore) ci0) = Inr g" for contract absorb g
    using that by (simp add: solve_approx_ci_def t Let_def)
  have m: "conv_tol mc \<le> max (conv_tol mc) (norm_gorb\<^sup>2 * 0.1)" by simp
  have e: "conv_tol mc \<le> norm_gorb\<^sup>2 * 0.1 \<longrightarrow>
           max (conv_tol mc) (norm_gorb\<^sup>2 * 0.1) = 0.1 * norm_gorb\<^sup>2" by simp
  from t m e a k r show ?thesis by blast
qed

theorem solve_approx_ci_tol_witness:
  "[''norm_gorb'' \<mapsto> (1::real)] ''norm_gorb'' = Some 1
   \<and> ci_tol (casscf_init [] 4000 True False 0 (0, 0) 0 FrozenNone) [''norm_gorb'' \<mapsto> 1] = Some (1 / 10)
   \<and> solve_approx_ci (casscf_init [] 4000 True False 0 (0, 0) 0 FrozenNone) echo_solver
        no_eigh 0 [] [] [1] 0 0 [''norm_gorb'' \<mapsto> 1] = Inr ([1 / 10], None)
   \<and> solve_approx_ci (casscf_init [] 4000 True False 0 (0, 0) 0 FrozenNone) echo_kernel_solver
        no_eigh 0 [] [] [1] 0 0 [''norm_gorb'' \<mapsto> 1] = Inr ([1 / 10], None)
   \<and> solve_approx_ci ((casscf_init [] 4000 True False 0 (0, 0) 0 FrozenNone)\<lparr>ci_response_space := 8\<rparr>)
        echo_response_solver no_eigh 0 [] [] [1] 0 0 [''norm_gorb'' \<mapsto> 1] = Inr ([1 / 10], Some [1])"
  using solve_approx_ci_tol [where envs = "[''norm_gorb'' \<mapsto> 1]" and norm_gorb = 1
      and mc = "casscf_init [] 4000 True False 0 (0, 0) 0 FrozenNone" and fs = echo_solver
      and safe_eigh = no_eigh and current_memory = 0 and ?h1.0 = "[]" and ?h2.0 = "[]"
      and ?ci0.0 = "[1]" and ecore = 0 and e_ci = 0]
    solve_approx_ci_tol [where envs = "[''norm_gorb'' \<mapsto> 1]" and norm_gorb = 1
      and mc = "casscf_init [] 4000 True False 0 (0, 0) 0 FrozenNone" and fs = echo_kernel_solver
      and safe_eigh = no_eigh and current_memory = 0 and ?h1.0 = "[]" and ?h2.0 = "[]"
      and ?ci0.0 = "[1]" and ecore = 0 and e_ci = 0]
    solve_approx_ci_tol [where envs = "[''norm_gorb'' \<mapsto> 1]" and norm_gorb = 1
      and mc = "(casscf_init [] 4000 True False 0 (0, 0) 0 FrozenNone)\<lparr>ci_response_space := 8\<rparr>"
      and fs = echo_response_solver
      and safe_eigh = no_eigh and current_memory = 0 and ?h1.0 = "[]" and ?h2.0 = "[]"
      and ?ci0.0 = "[1]" and ecore = 0 and e_ci = 0]
  by (simp add: casscf_init_def echo_solver_def echo_kernel_solver_def echo_response_solver_def
        np_binop_def smul_def)

subsection \<open>Claim C8\<close>













subsection \<open>Claim C9\<close>

lemma round_even_error: "\<bar>of_int (round_even y) - y\<bar> \<le> 1 / 2"
proof -
  have "of_int \<lfloor>y\<rfloor> \<le> y" "y < of_int \<lfloor>y\<rfloor> + 1" by linarith+
  then show ?thesis by (auto simp: round_even_def Let_def)
qed

lemma round_even_nonneg: "0 \<le> y \<Longrightarrow> 0 \<le> round_even y"
  by (auto simp: round_even_def Let_def)

lemma fl_error: "\<bar>fl x - x\<bar> \<le> 2 powr of_int (ulp_exp x) / 2"
proof -
  define q where "q = 2 powr real_of_int (ulp_exp x)"
  have q: "0 < q" by (simp add: q_def)
  have "fl x - x = (of_int (round_even (x / q)) - x / q) * q"
    using q by (simp add: fl_def q_def algebra_simps)
  then have "\<bar>fl x - x\<bar> = \<bar>of_int (round_even (x / q)) - x / q\<bar> * q"
    using q by (simp add: abs_mult)
  also have "\<dots> \<le> 1 / 2 * q"
    using round_even_error[of "x / q"] q by (intro mult_right_mono) simp_all
  finally show ?thesis by (simp add: q_def)
qed

lemma fl_nonneg: "0 \<le> x \<Longrightarrow> 0 \<le> fl x"
  by (simp add: fl_def round_even_nonneg)

lemma ulp_exp_normal:
  assumes "2 powr of_int e \<le> \<bar>x\<bar>" "\<bar>x\<bar> < 2 powr of_int (e + 1)" "- 1022 \<le> e"
  shows "ulp_exp x = e - 52"
proof -
  have pos: "0 < \<bar>x\<bar>" using assms(1) powr_gt_zero[of 2 "of_int e"] by linarith
  have "of_int e \<le> log 2 \<bar>x\<bar>" using assms(1) pos by (simp add: le_log_iff)
  moreover have "log 2 \<bar>x\<bar> < of_int e + 1" using assms(2) pos by (simp add: log_less_iff)
  ultimately have "\<lfloor>log 2 \<bar>x\<bar>\<rfloor> = e" by linarith
  with assms(3) show ?thesis by (simp add: ulp_exp_def)
qed

lemma fl_eval:
  assumes "2 powr of_int e \<le> \<bar>x\<bar>" "\<bar>x\<bar> < 2 powr of_int (e + 1)" "- 1022 \<le> e"
  shows "fl x = of_int (round_even (x / 2 powr of_int (e - 52))) * 2 powr of_int (e - 52)"
  using ulp_exp_normal[OF assms] by (simp add: fl_def)

lemma fl_relative:
  assumes "2 powr (- 1022) \<le> \<bar>x\<bar>"
  shows "\<bar>fl x - x\<bar> \<le> \<bar>x\<bar> * 2 powr (- 53)"
proof -
  have pos: "0 < \<bar>x\<bar>" using assms powr_gt_zero[of 2 "- 1022"] by linarith
  define e where "e = \<lfloor>log 2 \<bar>x\<bar>\<rfloor>"
  have "- 1022 \<le> log 2 \<bar>x\<bar>" using assms pos by (simp add: le_log_iff)
  then have e: "- 1022 \<le> e" unfolding e_def by linarith
  have "of_int e \<le> log 2 \<bar>x\<bar>" unfolding e_def by linarith
  then have le: "2 powr of_int e \<le> \<bar>x\<bar>" using pos by (simp add: le_log_iff)
  have u: "ulp_exp x = e - 52" using e by (simp add: ulp_exp_def e_def)
  have "2 powr real_of_int (e - 52) / 2 = 2 powr of_int e * 2 powr (- 53)"
  proof -
    have "real_of_int (e - 52) = of_int e + (- 53) + 1" by simp
    then have "2 powr real_of_int (e - 52) = 2 powr of_int e * 2 powr (- 53) * 2 powr 1"
      by (simp only: powr_add)
    then show ?thesis by simp
  qed
  also have "\<dots> \<le> \<bar>x\<bar> * 2 powr (- 53)" using le by (intro mult_right_mono) simp_all
  finally show ?thesis using fl_error[of x] u by simp
qed

lemma fl_subnormal:
  assumes "\<bar>x\<bar> < 2 powr (- 1022)"
  shows "\<bar>fl x - x\<bar> \<le> 2 powr (- 1022) * 2 powr (- 53)"
proof (cases "x = 0")
  case True
  then show ?thesis by (simp add: fl_def round_even_def)
next
  case False
  then have pos: "0 < \<bar>x\<bar>" by simp
  have "log 2 \<bar>x\<bar> < - 1022" using assms pos by (simp add: log_less_iff)
  then have "\<lfloor>log 2 \<bar>x\<bar>\<rfloor> \<le> - 1022" by linarith
  then have u: "ulp_exp x = - 1074" by (simp add: ulp_exp_def)
  have "2 powr real_of_int (- 1074) / 2 = 2 powr (- 1022) * 2 powr (- 53)"
  proof -
    have "real_of_int (- 1074) = (- 1022) + (- 53) + 1" by simp
    then have "2 powr real_of_int (- 1074) = 2 powr (- 1022) * 2 powr (- 53) * 2 powr 1"
      by (simp only: powr_add)
    then show ?thesis by simp
  qed
  then show ?thesis using fl_error[of x] u by simp
qed

lemma fl_abs_upper:
  assumes "\<bar>x\<bar> \<le> b" "2 powr (- 1022) \<le> b"
  shows "\<bar>fl x\<bar> \<le> b * (1 + 2 powr (- 53))"
proof (cases "2 powr (- 1022) \<le> \<bar>x\<bar>")
  case True
  have "\<bar>fl x\<bar> \<le> \<bar>x\<bar> + \<bar>x\<bar> * 2 powr (- 53)" using fl_relative[OF True] by linarith
  also have "\<dots> = \<bar>x\<bar> * (1 + 2 powr (- 53))" by (simp add: algebra_simps)
  also have "\<dots> \<le> b * (1 + 2 powr (- 53))" using assms(1) by (intro mult_right_mono) simp_all
  finally show ?thesis .
next
  case False
  then have s: "\<bar>x\<bar> < 2 powr (- 1022)" by simp
  have "\<bar>fl x\<bar> \<le> \<bar>x\<bar> + 2 powr (- 1022) * 2 powr (- 53)" using fl_subnormal[OF s] by linarith
  also have "\<dots> \<le> 2 powr (- 1022) + 2 powr (- 1022) * 2 powr (- 53)" using s by simp
  also have "\<dots> = 2 powr (- 1022) * (1 + 2 powr (- 53))" by (simp add: algebra_simps)
  also have "\<dots> \<le> b * (1 + 2 powr (- 53))" using assms(2) by (intro mult_right_mono) simp_all
  finally show ?thesis .
qed

lemma fl_abs_lower:
  assumes "2 powr (- 1022) \<le> \<bar>x\<bar>"
  shows "\<bar>x\<bar> * (1 - 2 powr (- 53)) \<le> \<bar>fl x\<bar>"
proof -
  have "\<bar>x\<bar> - \<bar>x\<bar> * 2 powr (- 53) \<le> \<bar>fl x\<bar>" using fl_relative[OF assms] by linarith
  then show ?thesis by (simp add: algebra_simps)
qed

lemma fl_pos:
  assumes "2 powr (- 1022) \<le> x"
  shows "0 < fl x"
proof -
  have x: "0 < x" using assms powr_gt_zero[of 2 "- 1022"] by linarith
  have "2 powr (- 53) < (1::real)" by (simp add: powr_less_one)
  then have "0 < \<bar>x\<bar> * (1 - 2 powr (- 53))" using x by simp
  with fl_abs_lower[of x] assms x have "0 < \<bar>fl x\<bar>" by simp
  with fl_nonneg[of x] x show ?thesis by simp
qed

lemma fl_7_25: "fl (7 / 25) = 1261007895663739 / 4503599627370496"
proof -
  have "fl (7 / 25) = of_int (round_even ((7 / 25) / 2 powr of_int (- 2 - 52))) * 2 powr of_int (- 2 - 52)"
    by (rule fl_eval) (simp_all add: powr_minus)
  also have "\<dots> = 1261007895663739 / 4503599627370496"
    by (simp add: round_even_def powr_minus Let_def)
  finally show ?thesis .
qed

lemma fl_25_scale:
  "fl (25 * (1261007895663739 / 4503599627370496)) = 7881299347898369 / 1125899906842624"
proof -
  have "fl (25 * (1261007895663739 / 4503599627370496)) =
        of_int (round_even (25 * (1261007895663739 / 4503599627370496) / 2 powr of_int (2 - 52))) *
        2 powr of_int (2 - 52)"
    by (rule fl_eval) (simp_all add: powr_minus)
  also have "\<dots> = 7881299347898369 / 1125899906842624"
    by (simp add: round_even_def powr_minus Let_def)
  finally show ?thesis .
qed

lemma fl_scale:
  "fl (1261007895663739 / 4503599627370496) = 1261007895663739 / 4503599627370496"
proof -
  have "fl (1261007895663739 / 4503599627370496) =
        of_int (round_even (1261007895663739 / 4503599627370496 / 2 powr of_int (- 2 - 52))) *
        2 powr of_int (- 2 - 52)"
    by (rule fl_eval) (simp_all add: powr_minus)
  also have "\<dots> = 1261007895663739 / 4503599627370496"
    by (simp add: round_even_def powr_minus Let_def)
  finally show ?thesis .
qed

lemma fl_quarter: "fl (1 / 4) = 1 / 4"
proof -
  have "fl (1 / 4) = of_int (round_even (1 / 4 / 2 powr of_int (- 2 - 52))) * 2 powr of_int (- 2 - 52)"
    by (rule fl_eval) (simp_all add: powr_minus)
  also have "\<dots> = 1 / 4"
    by (simp add: round_even_def powr_minus Let_def)
  finally show ?thesis .
qed

lemma fl_half: "fl (1 / 2) = 1 / 2"
proof -
  have "fl (1 / 2) = of_int (round_even (1 / 2 / 2 powr of_int (- 1 - 52))) * 2 powr of_int (- 1 - 52)"
    by (rule fl_eval) (simp_all add: powr_minus)
  also have "\<dots> = 1 / 2"
    by (simp add: round_even_def powr_minus Let_def)
  finally show ?thesis .
qed

lemma fl_neg_half: "fl (- (1 / 2)) = - (1 / 2)"
proof -
  have "fl (- (1 / 2)) = of_int (round_even (- (1 / 2) / 2 powr of_int (- 1 - 52))) * 2 powr of_int (- 1 - 52)"
    by (rule fl_eval) (simp_all add: powr_minus)
  also have "\<dots> = - (1 / 2)"
    by (simp add: round_even_def powr_minus Let_def)
  finally show ?thesis .
qed

lemma fl_neg_one: "fl (- 1) = - 1"
proof -
  have "fl (- 1) = of_int (round_even (- 1 / 2 powr of_int (0 - 52))) * 2 powr of_int (0 - 52)"
    by (rule fl_eval) (simp_all add: powr_minus)
  also have "\<dots> = - 1"
    by (simp add: round_even_def powr_minus Let_def)
  finally show ?thesis .
qed

lemma Max_abs_ge: "x \<in> set a \<Longrightarrow> \<bar>x\<bar> \<le> Max (set (map abs a))" for x :: real
  by (rule Max_ge) auto

lemma Max_abs_attained:
  fixes a :: vec
  assumes "a \<noteq> []"
  shows "\<exists>x \<in> set a. \<bar>x\<bar> = Max (set (map abs a))"
proof -
  have "Max (set (map abs a)) \<in> set (map abs a)" using assms by (intro Max_in) simp_all
  then show ?thesis by auto
qed

lemma accept_step_uses_clip:
  "clip_step max_step dxi hdxi = Inr (dxi', hdxi', scale) \<Longrightarrow>
   accept_step max_step g_orb dr dxi hdxi = Inr (g_orb', dr', dx, hdx) \<Longrightarrow>
   dx = dxi' \<and> hdx = hdxi'"
  by (auto simp: accept_step_def split: sum.splits option.splits)

lemma scale_bounds:
  assumes "0 < ms" "ms < m" "2 powr (- 1022) \<le> ms / m"
  shows "0 < fl (ms / m)"
    and "m * fl (ms / m) \<le> ms * (1 + 2 powr (- 53))"
    and "ms * (1 - 2 powr (- 53)) \<le> m * fl (ms / m)"
proof -
  have m: "0 < m" using assms(1,2) by simp
  have q: "0 < ms / m" using assms(1) m by simp
  show pos: "0 < fl (ms / m)" using assms(3) by (rule fl_pos)
  have "\<bar>fl (ms / m)\<bar> \<le> ms / m * (1 + 2 powr (- 53))"
    using q assms(3) by (intro fl_abs_upper) simp_all
  then have "fl (ms / m) \<le> ms / m * (1 + 2 powr (- 53))" using pos by simp
  then have "m * fl (ms / m) \<le> m * (ms / m * (1 + 2 powr (- 53)))"
    using m by (intro mult_left_mono) simp_all
  then show "m * fl (ms / m) \<le> ms * (1 + 2 powr (- 53))" using m by simp
  have aq: "\<bar>ms / m\<bar> = ms / m" using q by (rule abs_of_pos)
  have "2 powr (- 1022) \<le> \<bar>ms / m\<bar>" using assms(3) by (simp only: aq)
  then have "\<bar>ms / m\<bar> * (1 - 2 powr (- 53)) \<le> \<bar>fl (ms / m)\<bar>" by (rule fl_abs_lower)
  then have "ms / m * (1 - 2 powr (- 53)) \<le> fl (ms / m)"
    by (simp only: aq abs_of_pos[OF pos])
  then have "m * (ms / m * (1 - 2 powr (- 53))) \<le> m * fl (ms / m)"
    using m by (intro mult_left_mono) simp_all
  then show "ms * (1 - 2 powr (- 53)) \<le> m * fl (ms / m)" using m by simp
qed

lemma clip_component_upper:
  assumes "0 < ms" "ms < m" "2 powr (- 1022) \<le> ms" "2 powr (- 1022) \<le> ms / m" "\<bar>x\<bar> \<le> m"
  shows "\<bar>fl (x * fl (ms / m))\<bar> \<le> ms * (1 + 2 powr (- 53))\<^sup>2"
proof -
  note s = scale_bounds[OF assms(1,2,4)]
  have "\<bar>x * fl (ms / m)\<bar> = \<bar>x\<bar> * fl (ms / m)" using s(1) by (simp add: abs_mult)
  also have "\<dots> \<le> m * fl (ms / m)" using assms(5) s(1) by (intro mult_right_mono) simp_all
  also have "\<dots> \<le> ms * (1 + 2 powr (- 53))" by (rule s(2))
  finally have b: "\<bar>x * fl (ms / m)\<bar> \<le> ms * (1 + 2 powr (- 53))" .
  have "ms * 1 \<le> ms * (1 + 2 powr (- 53))" using assms(1) by (intro mult_left_mono) simp_all
  then have n: "2 powr (- 1022) \<le> ms * (1 + 2 powr (- 53))" using assms(3) by simp
  have "\<bar>fl (x * fl (ms / m))\<bar> \<le> ms * (1 + 2 powr (- 53)) * (1 + 2 powr (- 53))"
    using b n by (rule fl_abs_upper)
  then show ?thesis by (simp add: power2_eq_square)
qed

lemma clip_component_lower:
  assumes "0 < ms" "ms < m" "2 powr (- 1022) \<le> ms" "2 powr (- 1022) \<le> ms / m" "\<bar>x\<bar> = m"
  shows "ms * (1 - 2 * 2 powr (- 53)) \<le> \<bar>fl (x * fl (ms / m))\<bar>"
proof -
  define u :: real where "u = 2 powr (- 53)"
  have u: "0 < u" "u < 1" by (simp_all add: u_def powr_less_one)
  note s = scale_bounds[OF assms(1,2,4), folded u_def]
  define y where "y = x * fl (ms / m)"
  have ay: "\<bar>y\<bar> = m * fl (ms / m)" using s(1) assms(5) by (simp add: y_def abs_mult)
  have lo: "ms * (1 - u) \<le> \<bar>y\<bar>" using s(3) ay by simp
  show ?thesis
  proof (cases "2 powr (- 1022) \<le> \<bar>y\<bar>")
    case True
    have "ms * (1 - u) * (1 - u) \<le> \<bar>y\<bar> * (1 - u)"
      using lo u by (intro mult_right_mono) simp_all
    also have "\<dots> \<le> \<bar>fl y\<bar>" using fl_abs_lower[OF True] by (simp add: u_def)
    finally have "ms * ((1 - u) * (1 - u)) \<le> \<bar>fl y\<bar>" by (simp add: mult.assoc)
    moreover have "1 - 2 * u \<le> (1 - u) * (1 - u)" by (simp add: algebra_simps)
    then have "ms * (1 - 2 * u) \<le> ms * ((1 - u) * (1 - u))"
      using assms(1) by (intro mult_left_mono) simp_all
    ultimately show ?thesis by (simp add: y_def u_def)
  next
    case False
    then have sm: "\<bar>y\<bar> < 2 powr (- 1022)" by simp
    have "\<bar>y\<bar> - 2 powr (- 1022) * u \<le> \<bar>fl y\<bar>" using fl_subnormal[OF sm] by (simp add: u_def)
    moreover have "2 powr (- 1022) * u \<le> ms * u" using assms(3) u by (intro mult_right_mono) simp_all
    ultimately have "ms * (1 - u) - ms * u \<le> \<bar>fl y\<bar>" using lo by linarith
    then show ?thesis by (simp add: y_def u_def algebra_simps)
  qed
qed

text \<open>
  Claim C9, as stated: after clipping, \<open>max|dxi|\<close> equals \<open>max_stepsize\<close>, the
  direction of the step is unchanged, and no accepted step has a component larger
  than \<open>max_stepsize\<close>. It fails in binary64: with \<open>max_stepsize = 7\<close> and
  \<open>dxi = [25]\<close> the scale is the rounded quotient \<open>0.28\<close> and the rounded
  product \<open>25 * scale\<close> is \<open>7.000000000000001\<close>, above \<open>max_stepsize\<close>.
  It also fails for a negative \<open>max_stepsize\<close>: with \<open>-1\<close> and \<open>dxi = [2]\<close>
  the scale is \<open>-0.5\<close>, the step is reversed and its component has absolute
  value \<open>1\<close>.
\<close>

theorem clip_step_exceeds_counterexample:
  "clip_step 7 [25] [1] =
     Inr ([7881299347898369 / 1125899906842624], [1261007895663739 / 4503599627370496],
          Some (1261007895663739 / 4503599627370496))
   \<and> (7 :: real) < 7881299347898369 / 1125899906842624
   \<and> clip_step (- 1) [2] [1] = Inr ([- 1], [- (1 / 2)], Some (- (1 / 2)))
   \<and> (- 1 :: real) < \<bar>- 1\<bar>"
proof -
  have "clip_step 7 [25] [1] = Inr ([fl (25 * fl (7 / 25))], [fl (fl (7 / 25))], Some (fl (7 / 25)))"
    by (simp add: clip_step_def amax_def Let_def)
  then have a: "clip_step 7 [25] [1] =
     Inr ([7881299347898369 / 1125899906842624], [1261007895663739 / 4503599627370496],
          Some (1261007895663739 / 4503599627370496))"
    by (simp only: fl_7_25 fl_25_scale fl_scale)
  have "clip_step (- 1) [2] [1] = Inr ([fl (- 1)], [fl (- (1 / 2))], Some (fl (- (1 / 2))))"
    by (simp add: clip_step_def amax_def Let_def fl_neg_half)
  then have b: "clip_step (- 1) [2] [1] = Inr ([- 1], [- (1 / 2)], Some (- (1 / 2)))"
    by (simp only: fl_neg_half fl_neg_one)
  from a b show ?thesis by simp
qed

text \<open>
  Claim C9, amended: in an accepted step of \<open>rotate_orb_cc\<close>, with a positive
  \<open>max_stepsize\<close>, a step \<open>dxi\<close> whose largest absolute component \<open>dxmax\<close> is
  above \<open>max_stepsize\<close> is multiplied entry by entry, together with its Hessian
  image \<open>hdxi\<close>, by the one non-negative scalar \<open>scale\<close>, the binary64 quotient
  \<open>max_stepsize / dxmax\<close>. Unless \<open>max_stepsize\<close> or the quotient underflows
  (is below \<open>2^-1022\<close>) the scalar is positive, every component of the clipped step
  is at most \<open>max_stepsize * (1 + 2^-53)^2\<close> in absolute value and one is at least
  \<open>max_stepsize * (1 - 2^-52)\<close>: the largest equals \<open>max_stepsize\<close> up to the
  two roundings, not exactly. A step with \<open>dxmax <= max_stepsize\<close> is left as it
  is, and none of its components exceeds \<open>max_stepsize\<close>. The step that is
  accumulated is the clipped one.
\<close>

theorem clip_step_bounds:
  assumes "0 < max_step" and "dxi \<noteq> []"
  shows "\<exists>dxmax dxi' hdxi' scale.
           amax dxi = Inr dxmax \<and>
           clip_step max_step dxi hdxi = Inr (dxi', hdxi', scale) \<and>
           (max_step < dxmax \<longrightarrow>
              scale = Some (fl (max_step / dxmax)) \<and> 0 \<le> fl (max_step / dxmax) \<and>
              dxi' = map (\<lambda>x. fl (x * fl (max_step / dxmax))) dxi \<and>
              hdxi' = map (\<lambda>x. fl (x * fl (max_step / dxmax))) hdxi \<and>
              (2 powr (- 1022) \<le> max_step \<and> 2 powr (- 1022) \<le> max_step / dxmax \<longrightarrow>
                 0 < fl (max_step / dxmax) \<and>
                 list_all (\<lambda>x. \<bar>x\<bar> \<le> max_step * (1 + 2 powr (- 53))\<^sup>2) dxi' \<and>
                 list_ex (\<lambda>x. max_step * (1 - 2 * 2 powr (- 53)) \<le> \<bar>x\<bar>) dxi')) \<and>
           (dxmax \<le> max_step \<longrightarrow>
              scale = None \<and> dxi' = dxi \<and> hdxi' = hdxi \<and> list_all (\<lambda>x. \<bar>x\<bar> \<le> max_step) dxi') \<and>
           (\<forall>g_orb dr g_orb' dr' dx hdx.
              accept_step max_step g_orb dr dxi hdxi = Inr (g_orb', dr', dx, hdx) \<longrightarrow>
              dx = dxi' \<and> hdx = hdxi')"
proof -
  define dxmax where "dxmax = Max (set (map abs dxi))"
  have am: "amax dxi = Inr dxmax"
    using assms(2) by (simp add: amax_def dxmax_def)
  show ?thesis
  proof (cases "max_step < dxmax")
    case True
    define s where "s = fl (max_step / dxmax)"
    define dxi' where "dxi' = map (\<lambda>x. fl (x * s)) dxi"
    define hdxi' where "hdxi' = map (\<lambda>x. fl (x * s)) hdxi"
    have pos: "0 < dxmax" using True assms(1) by simp
    have s0: "0 \<le> s" unfolding s_def using pos assms(1) by (intro fl_nonneg) simp
    have clip: "clip_step max_step dxi hdxi = Inr (dxi', hdxi', Some s)"
      using True pos by (simp add: clip_step_def am s_def dxi'_def hdxi'_def Let_def)
    have fine: "0 < s \<and> list_all (\<lambda>x. \<bar>x\<bar> \<le> max_step * (1 + 2 powr (- 53))\<^sup>2) dxi' \<and>
                list_ex (\<lambda>x. max_step * (1 - 2 * 2 powr (- 53)) \<le> \<bar>x\<bar>) dxi'"
      if n: "2 powr (- 1022) \<le> max_step" "2 powr (- 1022) \<le> max_step / dxmax"
    proof -
      have "0 < s" unfolding s_def using assms(1) True n(2) by (rule scale_bounds(1))
      moreover have "list_all (\<lambda>x. \<bar>x\<bar> \<le> max_step * (1 + 2 powr (- 53))\<^sup>2) dxi'"
        unfolding list_all_iff dxi'_def s_def
      proof
        fix y assume "y \<in> set (map (\<lambda>x. fl (x * fl (max_step / dxmax))) dxi)"
        then obtain x where x: "x \<in> set dxi" and y: "y = fl (x * fl (max_step / dxmax))" by auto
        have "\<bar>x\<bar> \<le> dxmax" unfolding dxmax_def using x by (rule Max_abs_ge)
        with assms(1) True n show "\<bar>y\<bar> \<le> max_step * (1 + 2 powr (- 53))\<^sup>2"
          unfolding y by (rule clip_component_upper)
      qed
      moreover have "list_ex (\<lambda>x. max_step * (1 - 2 * 2 powr (- 53)) \<le> \<bar>x\<bar>) dxi'"
      proof -
        from Max_abs_attained[OF assms(2)] obtain x where x: "x \<in> set dxi" and e: "\<bar>x\<bar> = dxmax"
          unfolding dxmax_def by blast
        have "max_step * (1 - 2 * 2 powr (- 53)) \<le> \<bar>fl (x * fl (max_step / dxmax))\<bar>"
          using assms(1) True n e by (rule clip_component_lower)
        moreover have "fl (x * fl (max_step / dxmax)) \<in> set dxi'"
          using x by (auto simp: dxi'_def s_def)
        ultimately show ?thesis unfolding list_ex_iff by blast
      qed
      ultimately show ?thesis by simp
    qed
    have "amax dxi = Inr dxmax \<and>
           clip_step max_step dxi hdxi = Inr (dxi', hdxi', Some s) \<and>
           (max_step < dxmax \<longrightarrow>
              Some s = Some (fl (max_step / dxmax)) \<and> 0 \<le> fl (max_step / dxmax) \<and>
              dxi' = map (\<lambda>x. fl (x * fl (max_step / dxmax))) dxi \<and>
              hdxi' = map (\<lambda>x. fl (x * fl (max_step / dxmax))) hdxi \<and>
              (2 powr (- 1022) \<le> max_step \<and> 2 powr (- 1022) \<le> max_step / dxmax \<longrightarrow>
                 0 < fl (max_step / dxmax) \<and>
                 list_all (\<lambda>x. \<bar>x\<bar> \<le> max_step * (1 + 2 powr (- 53))\<^sup>2) dxi' \<and>
                 list_ex (\<lambda>x. max_step * (1 - 2 * 2 powr (- 53)) \<le> \<bar>x\<bar>) dxi')) \<and>
           (dxmax \<le> max_step \<longrightarrow>
              Some s = None \<and> dxi' = dxi \<and> hdxi' = hdxi \<and> list_all (\<lambda>x. \<bar>x\<bar> \<le> max_step) dxi') \<and>
           (\<forall>g_orb dr g_orb' dr' dx hdx.
              accept_step max_step g_orb dr dxi hdxi = Inr (g_orb', dr', dx, hdx) \<longrightarrow>
              dx = dxi' \<and> hdx = hdxi')"
      using am clip True s0 fine accept_step_uses_clip[OF clip]
      by (simp add: s_def[symmetric] dxi'_def hdxi'_def)
    then show ?thesis by blast
  next
    case False
    have clip: "clip_step max_step dxi hdxi = Inr (dxi, hdxi, None)"
      using False by (simp add: clip_step_def am)
    have bound: "list_all (\<lambda>x. \<bar>x\<bar> \<le> max_step) dxi"
      unfolding list_all_iff
    proof
      fix x assume "x \<in> set dxi"
      then have "\<bar>x\<bar> \<le> dxmax" unfolding dxmax_def by (rule Max_abs_ge)
      with False show "\<bar>x\<bar> \<le> max_step" by linarith
    qed
    have "amax dxi = Inr dxmax \<and>
           clip_step max_step dxi hdxi = Inr (dxi, hdxi, None) \<and>
           (max_step < dxmax \<longrightarrow>
              None = Some (fl (max_step / dxmax)) \<and> 0 \<le> fl (max_step / dxmax) \<and>
              dxi = map (\<lambda>x. fl (x * fl (max_step / dxmax))) dxi \<and>
              hdxi = map (\<lambda>x. fl (x * fl (max_step / dxmax))) hdxi \<and>
              (2 powr (- 1022) \<le> max_step \<and> 2 powr (- 1022) \<le> max_step / dxmax \<longrightarrow>
                 0 < fl (max_step / dxmax) \<and>
                 list_all (\<lambda>x. \<bar>x\<bar> \<le> max_step * (1 + 2 powr (- 53))\<^sup>2) dxi \<and>
                 list_ex (\<lambda>x. max_step * (1 - 2 * 2 powr (- 53)) \<le> \<bar>x\<bar>) dxi)) \<and>
           (dxmax \<le> max_step \<longrightarrow>
              (None :: real option) = None \<and> dxi = dxi \<and> hdxi = hdxi \<and>
              list_all (\<lambda>x. \<bar>x\<bar> \<le> max_step) dxi) \<and>
           (\<forall>g_orb dr g_orb' dr' dx hdx.
              accept_step max_step g_orb dr dxi hdxi = Inr (g_orb', dr', dx, hdx) \<longrightarrow>
              dx = dxi \<and> hdx = hdxi)"
      using am clip False bound accept_step_uses_clip[OF clip] by simp
    then show ?thesis by blast
  qed
qed

theorem clip_step_bounds_witness:
  "0 < (1::real) \<and> [2, - 4 :: real] \<noteq> [] \<and> amax [2, - 4] = Inr 4 \<and> (1 :: real) < 4 \<and>
   2 powr (- 1022) \<le> (1 :: real) \<and> 2 powr (- 1022) \<le> (1 :: real) / 4 \<and>
   clip_step 1 [2, - 4] [1, 1] = Inr ([1 / 2, - 1], [1 / 4, 1 / 4], Some (1 / 4)) \<and>
   list_all (\<lambda>x. \<bar>x\<bar> \<le> 1 * (1 + 2 powr (- 53))\<^sup>2) [1 / 2, - 1 :: real] \<and>
   list_ex (\<lambda>x. 1 * (1 - 2 * 2 powr (- 53)) \<le> \<bar>x\<bar>) [1 / 2, - 1 :: real]"
proof -
  have m: "amax [2, - 4] = Inr 4" by (simp add: amax_def)
  have "clip_step 1 [2, - 4] [1, 1] =
          Inr ([fl (2 * fl (1 / 4)), fl (- 4 * fl (1 / 4))], [fl (fl (1 / 4)), fl (fl (1 / 4))],
               Some (fl (1 / 4)))"
    by (simp add: clip_step_def m Let_def)
  then have c: "clip_step 1 [2, - 4] [1, 1] = Inr ([1 / 2, - 1], [1 / 4, 1 / 4], Some (1 / 4))"
    by (simp add: fl_quarter fl_half fl_neg_one)
  have p: "2 powr (- 1022) \<le> (1 :: real)" "2 powr (- 1022) \<le> (1 :: real) / 4"
    by (simp_all add: powr_minus field_simps)
  from clip_step_bounds [of 1 "[2, - 4]" "[1, 1]", OF zero_less_one list.distinct(2)]
  obtain dxmax dxi' hdxi' scale where
    a: "amax [2, - 4] = Inr dxmax" and b: "clip_step 1 [2, - 4] [1, 1] = Inr (dxi', hdxi', scale)"
    and i: "1 < dxmax \<longrightarrow>
            (2 powr (- 1022) \<le> (1 :: real) \<and> 2 powr (- 1022) \<le> 1 / dxmax \<longrightarrow>
               list_all (\<lambda>x. \<bar>x\<bar> \<le> 1 * (1 + 2 powr (- 53))\<^sup>2) dxi' \<and>
               list_ex (\<lambda>x. 1 * (1 - 2 * 2 powr (- 53)) \<le> \<bar>x\<bar>) dxi')"
    by blast
  from a m have d: "dxmax = 4" by simp
  from b c have e: "dxi' = [1 / 2, - 1]" by simp
  from i p have "list_all (\<lambda>x. \<bar>x\<bar> \<le> 1 * (1 + 2 powr (- 53))\<^sup>2) [1 / 2, - 1 :: real] \<and>
        list_ex (\<lambda>x. 1 * (1 - 2 * 2 powr (- 53)) \<le> \<bar>x\<bar>) [1 / 2, - 1 :: real]"
    unfolding d e by simp
  with m c p show ?thesis by simp
qed

end
